theory Spec2Isabelle
  imports Complex_Main "HOL-Library.Word"
begin

unbundle bit_operations_syntax

section \<open>A shallow embedding of the DNS-over-HTTPS client\<close>

text \<open>
  The development follows the Go package \<^verbatim>\<open>doh\<close>: \<^verbatim>\<open>dns.go\<close> (the
  response types), \<^verbatim>\<open>cache.go\<close> (the TTL cache), \<^verbatim>\<open>utils.go\<close>
  (\<^verbatim>\<open>FixSubnet\<close>) and the client itself (\<^verbatim>\<open>Query\<close>,
  \<^verbatim>\<open>fastQuery\<close>, \<^verbatim>\<open>goQuery\<close>, \<^verbatim>\<open>collectResponses\<close>,
  \<^verbatim>\<open>checkCache\<close>, \<^verbatim>\<open>updateCache\<close>, \<^verbatim>\<open>doRequest\<close>).

  Conventions.
  \<^item> A Go \<^verbatim>\<open>string\<close> is a sequence of bytes: \<^typ>\<open>string\<close>.
  \<^item> \<^verbatim>\<open>int64\<close> is \<^typ>\<open>64 word\<close>: \<open>+\<close> and \<open>*\<close> wrap around, \<^const>\<open>sint\<close>
    reads the two's complement value, \<^const>\<open>word_sless\<close> is the signed \<^verbatim>\<open><\<close>.
  \<^item> The counters of the reliability statistics and the JSON integers are Go \<^verbatim>\<open>int\<close>
    values, modelled by \<^typ>\<open>int\<close>; they are only ever incremented from zero or decoded.
  \<^item> A \<^verbatim>\<open>float64\<close> is the real number it denotes; its operations round.
  \<^item> \<^verbatim>\<open>time.Now().UnixNano()\<close> is an explicit argument \<open>now\<close>.
  \<^item> A function that returns \<^verbatim>\<open>(*Response, error)\<close> returns a \<open>result\<close>, one
    constructor per shape of \<^verbatim>\<open>return\<close> statement in the source.
  \<^item> A receive from a channel on which nothing will ever be sent does not return: the
    model's value is \<^const>\<open>None\<close>.
\<close>

subsection \<open>\<^verbatim>\<open>cache.go\<close>\<close>

text \<open>
  \<^verbatim>\<open>type cacheItem struct { value interface{}; expiration int64 }\<close> and
  \<^verbatim>\<open>items map[string]cacheItem\<close>.
\<close>

record 'v cacheItem =
  item_value :: 'v
  expiration :: "64 word"

type_synonym 'v cache = "string \<rightharpoonup> 'v cacheItem"

definition newCache :: "'v cache" where
  "newCache = Map.empty"

text \<open>\<^verbatim>\<open>int64(time.Second)\<close>, in nanoseconds.\<close>

definition time_Second :: "64 word" where
  "time_Second = 1000000000"

text \<open>
  \<^verbatim>\<open>Get\<close>: \<^verbatim>\<open>nil\<close> (here \<^const>\<open>None\<close>) when the key is missing or
  \<^verbatim>\<open>time.Now().UnixNano() > item.expiration\<close>.
\<close>

definition cache_Get :: "'v cache \<Rightarrow> string \<Rightarrow> 64 word \<Rightarrow> 'v option" where
  "cache_Get c key now =
     (case c key of
        None \<Rightarrow> None
      | Some item \<Rightarrow> if word_sless (expiration item) now then None else Some (item_value item))"

text \<open>
  \<^verbatim>\<open>Set\<close>: \<^verbatim>\<open>expiration := time.Now().UnixNano() + (ttl * int64(time.Second))\<close>.
\<close>

definition cache_Set :: "'v cache \<Rightarrow> string \<Rightarrow> 'v \<Rightarrow> 64 word \<Rightarrow> 64 word \<Rightarrow> 'v cache" where
  "cache_Set c key v ttl now =
     (let expiration = now + (ttl * time_Second)
      in c(key \<mapsto> \<lparr>item_value = v, expiration = expiration\<rparr>))"

subsection \<open>\<^verbatim>\<open>dns.go\<close>\<close>

record Question =
  QName :: string
  QType :: int

record Answer =
  AName :: string
  AType :: int
  TTL :: int
  Data :: string

record Response =
  Status :: int
  TC :: bool
  RD :: bool
  RA :: bool
  AD :: bool
  CD :: bool
  Question :: "Question list"
  Answer :: "Answer list"
  Provider :: string

subsection \<open>Errors and results\<close>

text \<open>
  One constructor per \<^verbatim>\<open>fmt.Errorf\<close> of the client; the arguments are the values the
  message is formatted from.
\<close>

datatype error =
    ErrBuildRequest
  | ErrHTTPRequestFailed string
  | ErrUnexpectedStatusCode string int
  | ErrReadBody string
  | ErrUnmarshal string
  | ErrDNSStatus string int
  | ErrAllProvidersFailed int
  | ErrInvalidIP

text \<open>
  The pairs \<^verbatim>\<open>(*Response, error)\<close> that the client returns:
  \<^verbatim>\<open>return rr, nil\<close>, \<^verbatim>\<open>return nil, err\<close> and the one
  \<^verbatim>\<open>return rr, fmt.Errorf(...)\<close> of \<^verbatim>\<open>doRequest\<close>.
\<close>

datatype result =
    Success Response
  | Failure error
  | FailureWith Response error

text \<open>The two components of the Go pair; \<^const>\<open>None\<close> is \<^verbatim>\<open>nil\<close>.\<close>

fun response_of :: "result \<Rightarrow> Response option" where
  "response_of (Success r) = Some r"
| "response_of (Failure e) = None"
| "response_of (FailureWith r e) = Some r"

fun error_of :: "result \<Rightarrow> error option" where
  "error_of (Success r) = None"
| "error_of (Failure e) = Some e"
| "error_of (FailureWith r e) = Some e"

subsection \<open>\<^verbatim>\<open>doRequest\<close> and \<^verbatim>\<open>query\<close>\<close>

text \<open>
  What \<^verbatim>\<open>c.httpClient.Do(req)\<close> and \<^verbatim>\<open>io.ReadAll(rsp.Body)\<close> deliver is an
  input of the model: the transport fails, or it answers with a status code and a body that
  is read in full or not.
\<close>

datatype http_outcome =
    DoFailed
  | DoResponse (StatusCode: int) (Body: "string option")

definition http_StatusOK :: int where
  "http_StatusOK = 200"

text \<open>
  \<^verbatim>\<open>json.Unmarshal(data, rr)\<close> belongs to the standard library: it is the parameter
  \<open>unmarshal\<close>, which maps the body and the response it decodes into
  (\<^verbatim>\<open>&Response{Provider: u}\<close>) to the decoded response, or to \<^const>\<open>None\<close> on an
  error.
\<close>

definition emptyResponse :: "string \<Rightarrow> Response" where
  "emptyResponse u =
     \<lparr>Status = 0, TC = False, RD = False, RA = False, AD = False, CD = False,
      Question = [], Answer = [], Provider = u\<rparr>"

definition doRequest ::
  "(string \<Rightarrow> Response \<Rightarrow> Response option) \<Rightarrow> string \<Rightarrow> http_outcome \<Rightarrow> result" where
  "doRequest unmarshal u out =
     (case out of
        DoFailed \<Rightarrow> Failure (ErrHTTPRequestFailed u)
      | DoResponse code body \<Rightarrow>
          if code \<noteq> http_StatusOK then Failure (ErrUnexpectedStatusCode u code)
          else (case body of
                  None \<Rightarrow> Failure (ErrReadBody u)
                | Some data \<Rightarrow>
                    (case unmarshal data (emptyResponse u) of
                       None \<Rightarrow> Failure (ErrUnmarshal u)
                     | Some rr \<Rightarrow>
                         if Status rr \<noteq> 0 then FailureWith rr (ErrDNSStatus u (Status rr))
                         else Success rr)))"

text \<open>
  \<^verbatim>\<open>query\<close>: \<^verbatim>\<open>buildRequest\<close> fails (\<^const>\<open>None\<close>), or yields the request
  whose URL is \<open>u\<close>, which \<^verbatim>\<open>doRequest\<close> executes.
\<close>

definition query ::
  "(string \<Rightarrow> Response \<Rightarrow> Response option) \<Rightarrow> string option \<Rightarrow> http_outcome \<Rightarrow> result" where
  "query unmarshal req out =
     (case req of
        None \<Rightarrow> Failure ErrBuildRequest
      | Some u \<Rightarrow> doRequest unmarshal u out)"

subsection \<open>\<^verbatim>\<open>float64\<close>\<close>

text \<open>
  A finite \<^verbatim>\<open>float64\<close> is the real number it denotes, and \<^verbatim>\<open><\<close> on finite
  \<^verbatim>\<open>float64\<close> values is \<open><\<close> on these numbers. An arithmetic operation of Go
  yields the exact result rounded to the nearest number with a significand of 53 bits, a
  tie going to the even significand (IEEE 754, binary64).

  \<open>normalise\<close> scales a positive number by powers of two until it lies between \<open>2\<^sup>5\<^sup>2\<close>
  and \<open>2\<^sup>5\<^sup>3\<close>, and counts the exponent; \<open>roundEven\<close> rounds the scaled number to the
  nearest integer, the 53-bit significand; \<open>round64\<close> scales the significand back. The fuel
  of \<open>normalise\<close> exceeds the 2098 binary orders of magnitude between the smallest and
  the largest \<^verbatim>\<open>float64\<close>. Infinities, NaN and the loss of precision of subnormal
  numbers are not modelled: the operands below are counters and the constant 100, and a
  divisor is never zero.
\<close>

fun normalise :: "nat \<Rightarrow> real \<Rightarrow> int \<Rightarrow> real \<times> int" where
  "normalise 0 x k = (x, k)"
| "normalise (Suc n) x k =
     (if x < 2 ^ 52 then normalise n (2 * x) (k - 1)
      else if 2 ^ 53 \<le> x then normalise n (x / 2) (k + 1)
      else (x, k))"

definition roundEven :: "real \<Rightarrow> int" where
  "roundEven x =
     (let f = \<lfloor>x\<rfloor>; r = x - of_int f
      in if r < 1 / 2 then f else if 1 / 2 < r then f + 1 else if even f then f else f + 1)"

definition pow2 :: "int \<Rightarrow> real" where
  "pow2 k = (if 0 \<le> k then 2 ^ nat k else 1 / 2 ^ nat (- k))"

definition round64 :: "real \<Rightarrow> real" where
  "round64 x =
     (if x = 0 then 0
      else case normalise 2200 \<bar>x\<bar> 0 of (m, k) \<Rightarrow> sgn x * of_int (roundEven m) * pow2 k)"

text \<open>The conversion \<^verbatim>\<open>float64(n)\<close> and the operators \<^verbatim>\<open>/\<close> and \<^verbatim>\<open>*\<close>.\<close>

definition float64_of_int :: "int \<Rightarrow> real" where
  "float64_of_int n = round64 (of_int n)"

definition float64_div :: "real \<Rightarrow> real \<Rightarrow> real" where
  "float64_div x y = round64 (x / y)"

definition float64_mul :: "real \<Rightarrow> real \<Rightarrow> real" where
  "float64_mul x y = round64 (x * y)"

subsection \<open>The reliability statistics and \<^verbatim>\<open>goQuery\<close>\<close>

text \<open>
  \<^verbatim>\<open>stats map[int][]interface{}\<close>: the slice of a provider holds its failure count
  (index 0), its attempt count (index 1) and its failure rate (index 2, a
  \<^verbatim>\<open>float64\<close>).
\<close>

record stat =
  failureCount :: int
  attemptCount :: int
  failureRate :: real

type_synonym stats = "int \<rightharpoonup> stat"

text \<open>
  The block of \<^verbatim>\<open>goQuery\<close> between \<^verbatim>\<open>c.Lock()\<close> and \<^verbatim>\<open>c.Unlock()\<close>.
  The last statement is
  \<^verbatim>\<open>c.stats[k][2] = float64(c.stats[k][0].(int)) / float64(c.stats[k][1].(int)) * 100\<close>:
  two conversions, a division and then a multiplication, each rounded.
\<close>

definition recordAttempt :: "stats \<Rightarrow> int \<Rightarrow> bool \<Rightarrow> stats" where
  "recordAttempt st k failed =
     (let s0 = (case st k of
                  None \<Rightarrow> \<lparr>failureCount = 0, attemptCount = 0, failureRate = 100\<rparr>
                | Some s \<Rightarrow> s);
          s1 = s0\<lparr>attemptCount := attemptCount s0 + 1\<rparr>;
          s2 = (if failed then s1\<lparr>failureCount := failureCount s1 + 1\<rparr> else s1);
          s3 = s2\<lparr>failureRate :=
                    float64_mul
                      (float64_div (float64_of_int (failureCount s2)) (float64_of_int (attemptCount s2)))
                      100\<rparr>
      in st(k \<mapsto> s3))"

text \<open>The values that travel on the channel \<^verbatim>\<open>r chan interface{}\<close>.\<close>

datatype chan_value =
    RespV Response
  | ErrV error

text \<open>
  \<^verbatim>\<open>goQuery\<close> after \<^verbatim>\<open>c.query\<close> has returned \<open>res\<close>: the statistics are
  updated, then \<^verbatim>\<open>rsp\<close> is sent when \<^verbatim>\<open>err == nil\<close> and \<^verbatim>\<open>err\<close>
  otherwise. \<open>goQuery_send\<close> is the value sent.
\<close>

definition goQuery_send :: "result \<Rightarrow> chan_value" where
  "goQuery_send res =
     (case res of
        Success rsp \<Rightarrow> RespV rsp
      | Failure err \<Rightarrow> ErrV err
      | FailureWith rsp err \<Rightarrow> ErrV err)"

definition goQuery :: "stats \<Rightarrow> int \<Rightarrow> result \<Rightarrow> stats \<times> chan_value" where
  "goQuery st k res =
     (let st' = recordAttempt st k (error_of res \<noteq> None)
      in (st', goQuery_send res))"

text \<open>\<^verbatim>\<open>recordAttempt\<close> once per outcome, on one provider.\<close>

fun recordAttempts :: "stats \<Rightarrow> int \<Rightarrow> bool list \<Rightarrow> stats" where
  "recordAttempts st k [] = st"
| "recordAttempts st k (failed # outcomes) = recordAttempts (recordAttempt st k failed) k outcomes"

subsection \<open>\<^verbatim>\<open>collectResponses\<close>\<close>

text \<open>
  The channel is the list of the values sent on it, in the order in which the attempts
  complete; it is never closed. One iteration of \<^verbatim>\<open>for v := range r\<close> takes the
  head; on the empty list the receive waits forever.
\<close>

definition afterLoop :: "error option \<Rightarrow> int \<Rightarrow> result" where
  "afterLoop firstError totalUrls =
     (case firstError of
        Some e \<Rightarrow> Failure e
      | None \<Rightarrow> Failure (ErrAllProvidersFailed totalUrls))"

fun collectLoop :: "chan_value list \<Rightarrow> int \<Rightarrow> error option \<Rightarrow> int \<Rightarrow> result option" where
  "collectLoop [] totalUrls firstError seen = None"
| "collectLoop (RespV resp # r) totalUrls firstError seen = Some (Success resp)"
| "collectLoop (ErrV err # r) totalUrls firstError seen =
     (let firstError' = (if firstError = None then Some err else firstError)
      in if seen + 1 \<ge> totalUrls then Some (afterLoop firstError' totalUrls)
         else collectLoop r totalUrls firstError' (seen + 1))"

text \<open>The counter \<^verbatim>\<open>total\<close> of the source is \<open>seen\<close>; it starts at 0.\<close>

definition collectResponses :: "chan_value list \<Rightarrow> int \<Rightarrow> result option" where
  "collectResponses r totalUrls = collectLoop r totalUrls None 0"

subsection \<open>The providers of a client: \<^verbatim>\<open>New\<close>\<close>

text \<open>
  \<^verbatim>\<open>New\<close> starts from \<^verbatim>\<open>urls: nil\<close>, applies the options
  (\<^verbatim>\<open>WithProviders\<close> assigns \<^verbatim>\<open>d.urls\<close>) and then installs the default
  list if \<^verbatim>\<open>len(c.urls) == 0\<close>. The argument of \<open>New_urls\<close> is the field after
  the options, \<open>[]\<close> for \<^verbatim>\<open>nil\<close>; its value is the field \<^verbatim>\<open>c.urls\<close> of the
  client that \<^verbatim>\<open>New\<close> returns.
\<close>

definition defaultUrls :: "string list" where
  "defaultUrls =
     [''https://9.9.9.9:5053/dns-query'',
      ''https://1.1.1.1/dns-query'',
      ''https://8.8.8.8/resolve'',
      ''https://1.12.12.12/dns-query'']"

definition New_urls :: "string list \<Rightarrow> string list" where
  "New_urls urls = (if length urls = 0 then defaultUrls else urls)"

subsection \<open>Provider selection in \<^verbatim>\<open>Query\<close>\<close>

text \<open>
  \<^verbatim>\<open>for k, v := range c.stats\<close> visits the entries in an order that Go leaves
  open: the keys in the order of the visit are the argument \<open>ks\<close>, so that
  \<^verbatim>\<open>len(c.stats) > 0\<close> is \<open>ks \<noteq> []\<close>. The state of the loop is
  \<^verbatim>\<open>(minIndex, minRate)\<close>.
\<close>

fun scanStats :: "stats \<Rightarrow> int list \<Rightarrow> int \<times> real \<Rightarrow> int \<times> real" where
  "scanStats st [] (minIndex, minRate) = (minIndex, minRate)"
| "scanStats st (k # ks) (minIndex, minRate) =
     (case st k of
        None \<Rightarrow> scanStats st ks (minIndex, minRate)
      | Some v \<Rightarrow>
          if failureRate v < minRate then scanStats st ks (k, failureRate v)
          else scanStats st ks (minIndex, minRate))"

text \<open>\<^verbatim>\<open>for i, u := range c.urls { urlsToQuery[i] = u }\<close>, from index \<open>i\<close> on.\<close>

fun rangeUrls :: "int \<Rightarrow> string list \<Rightarrow> (int \<rightharpoonup> string) \<Rightarrow> (int \<rightharpoonup> string)" where
  "rangeUrls i [] m = m"
| "rangeUrls i (u # us) m = rangeUrls (i + 1) us (m(i \<mapsto> u))"

text \<open>
  The map \<^verbatim>\<open>urlsToQuery\<close> that \<^verbatim>\<open>Query\<close> hands to \<^verbatim>\<open>fastQuery\<close>;
  \<^const>\<open>None\<close> is the panic of \<^verbatim>\<open>c.urls[minIndex]\<close> on an index out of range.
  The map is filled from \<^verbatim>\<open>c.urls\<close> when \<^verbatim>\<open>len(urlsToQuery) == 0\<close>.
\<close>

definition selectUrls :: "string list \<Rightarrow> stats \<Rightarrow> int list \<Rightarrow> (int \<rightharpoonup> string) option" where
  "selectUrls urls st ks =
     (let sel =
        (if ks \<noteq> [] then
           (case scanStats st ks (- 1, 101) of (minIndex, minRate) \<Rightarrow>
              if minIndex \<noteq> - 1 then
                (if 0 \<le> minIndex \<and> minIndex < int (length urls)
                 then Some [minIndex \<mapsto> urls ! nat minIndex] else None)
              else Some Map.empty)
         else Some Map.empty)
      in case sel of
           None \<Rightarrow> None
         | Some urlsToQuery \<Rightarrow>
             if urlsToQuery = Map.empty then Some (rangeUrls 0 urls urlsToQuery)
             else Some urlsToQuery)"

subsection \<open>\<^verbatim>\<open>strings.TrimSpace\<close> and \<^verbatim>\<open>strings.Cut\<close>\<close>

text \<open>
  \<^verbatim>\<open>strings.TrimSpace\<close> removes the leading and trailing white space of a string, as
  Unicode defines it: the six ASCII characters tab, line feed, vertical tab, form feed,
  carriage return and space, and the code points U+0085, U+00A0, U+1680, U+2000 to U+200A,
  U+2028, U+2029, U+202F, U+205F and U+3000. On the bytes of the string these are the
  following UTF-8 sequences; a byte sequence that is not valid UTF-8 decodes to U+FFFD,
  which is not white space.
\<close>

definition whiteSpace :: "string list" where
  "whiteSpace =
     [[CHR 0x09], [CHR 0x0A], [CHR 0x0B], [CHR 0x0C], [CHR 0x0D], [CHR 0x20],
      [CHR 0xC2, CHR 0x85], [CHR 0xC2, CHR 0xA0],
      [CHR 0xE1, CHR 0x9A, CHR 0x80],
      [CHR 0xE2, CHR 0x80, CHR 0x80], [CHR 0xE2, CHR 0x80, CHR 0x81],
      [CHR 0xE2, CHR 0x80, CHR 0x82], [CHR 0xE2, CHR 0x80, CHR 0x83],
      [CHR 0xE2, CHR 0x80, CHR 0x84], [CHR 0xE2, CHR 0x80, CHR 0x85],
      [CHR 0xE2, CHR 0x80, CHR 0x86], [CHR 0xE2, CHR 0x80, CHR 0x87],
      [CHR 0xE2, CHR 0x80, CHR 0x88], [CHR 0xE2, CHR 0x80, CHR 0x89],
      [CHR 0xE2, CHR 0x80, CHR 0x8A],
      [CHR 0xE2, CHR 0x80, CHR 0xA8], [CHR 0xE2, CHR 0x80, CHR 0xA9],
      [CHR 0xE2, CHR 0x80, CHR 0xAF],
      [CHR 0xE2, CHR 0x81, CHR 0x9F],
      [CHR 0xE3, CHR 0x80, CHR 0x80]]"

text \<open>The number of bytes of the white space character that \<open>s\<close> starts with, or 0.\<close>

definition leadingSpace :: "string \<Rightarrow> nat" where
  "leadingSpace s =
     (case List.find (\<lambda>w. take (length w) s = w) whiteSpace of
        None \<Rightarrow> 0
      | Some w \<Rightarrow> length w)"

text \<open>The number of bytes of the white space character that \<open>s\<close> ends with, or 0.\<close>

definition trailingSpace :: "string \<Rightarrow> nat" where
  "trailingSpace s =
     (case List.find (\<lambda>w. length w \<le> length s \<and> drop (length s - length w) s = w) whiteSpace of
        None \<Rightarrow> 0
      | Some w \<Rightarrow> length w)"

function trimLeft :: "string \<Rightarrow> string" where
  "trimLeft s = (if leadingSpace s = 0 then s else trimLeft (drop (leadingSpace s) s))"
  by pat_completeness auto
termination
proof (relation "measure length")
  show "wf (measure length)" by simp
next
  fix s :: string
  assume pos: "leadingSpace s \<noteq> 0"
  have "leadingSpace s \<le> length s"
  proof (cases "List.find (\<lambda>w. take (length w) s = w) whiteSpace")
    case None
    then show ?thesis by (simp add: leadingSpace_def)
  next
    case (Some w)
    then have "take (length w) s = w" by (auto simp: find_Some_iff)
    then have "length (take (length w) s) = length w" by simp
    then have "length w \<le> length s" by (simp add: min_def split: if_splits)
    with Some show ?thesis by (simp add: leadingSpace_def)
  qed
  with pos show "(drop (leadingSpace s) s, s) \<in> measure length" by simp
qed

function trimRight :: "string \<Rightarrow> string" where
  "trimRight s = (if trailingSpace s = 0 then s else trimRight (take (length s - trailingSpace s) s))"
  by pat_completeness auto
termination
proof (relation "measure length")
  show "wf (measure length)" by simp
next
  fix s :: string
  assume pos: "trailingSpace s \<noteq> 0"
  have "trailingSpace s \<le> length s"
    by (auto simp: trailingSpace_def find_Some_iff split: option.splits)
  with pos show "(take (length s - trailingSpace s) s, s) \<in> measure length" by simp
qed

declare trimLeft.simps [simp del] trimRight.simps [simp del]

definition TrimSpace :: "string \<Rightarrow> string" where
  "TrimSpace s = trimRight (trimLeft s)"

text \<open>
  \<^verbatim>\<open>strings.Cut(s, "/")\<close>: the text before the first \<^verbatim>\<open>/\<close>, the text after it,
  and whether there is one.
\<close>

definition Cut :: "string \<Rightarrow> char \<Rightarrow> string \<times> string \<times> bool" where
  "Cut s sep =
     (takeWhile (\<lambda>c. c \<noteq> sep) s, drop 1 (dropWhile (\<lambda>c. c \<noteq> sep) s), sep \<in> set s)"

subsection \<open>\<^verbatim>\<open>utils.go\<close>\<close>

text \<open>
  The functions of the standard package \<^verbatim>\<open>net/netip\<close> that \<^verbatim>\<open>FixSubnet\<close> calls
  are a parameter: \<^verbatim>\<open>ParsePrefix\<close> and \<^verbatim>\<open>ParseAddr\<close> (\<^const>\<open>None\<close> for an
  error), \<^verbatim>\<open>Addr.Is4\<close>, \<^verbatim>\<open>PrefixFrom\<close> and \<^verbatim>\<open>Prefix.String\<close>.
\<close>

record ('addr, 'prefix) netip =
  ParsePrefix :: "string \<Rightarrow> 'prefix option"
  ParseAddr :: "string \<Rightarrow> 'addr option"
  Is4 :: "'addr \<Rightarrow> bool"
  PrefixFrom :: "'addr \<Rightarrow> int \<Rightarrow> 'prefix"
  PrefixString :: "'prefix \<Rightarrow> string"

definition FixSubnet :: "('addr, 'prefix) netip \<Rightarrow> string \<Rightarrow> error + string" where
  "FixSubnet N s0 =
     (let s = TrimSpace s0
      in case ParsePrefix N s of
           Some p \<Rightarrow> Inr (PrefixString N p)
         | None \<Rightarrow>
             (case Cut s (CHR ''/'') of (ipPart, _, _) \<Rightarrow>
                (case ParseAddr N ipPart of
                   None \<Rightarrow> Inl ErrInvalidIP
                 | Some addr \<Rightarrow>
                     (let bits = (if Is4 N addr then 24 else 56);
                          p = PrefixFrom N addr bits
                      in Inr (PrefixString N p)))))"

subsection \<open>An instance of \<^verbatim>\<open>net/netip\<close>: dotted-decimal IPv4\<close>

text \<open>
  The statements about \<^verbatim>\<open>FixSubnet\<close> hold for every \<open>netip\<close>. To evaluate them
  on concrete strings, \<open>netip_v4\<close> provides the IPv4 part of the package: an address is four
  decimal fields from 0 to 255 without leading zeros, separated by dots; a prefix is an
  address, the last \<^verbatim>\<open>/\<close> and a length from 0 to 32 without leading zeros; a prefix
  is printed as the address, \<^verbatim>\<open>/\<close> and the length. Strings with a colon, the IPv6
  addresses, are outside this instance.
\<close>

definition digitVal :: "char \<Rightarrow> nat option" where
  "digitVal c =
     (let n = (of_char c :: nat) in if 48 \<le> n \<and> n \<le> 57 then Some (n - 48) else None)"

fun parseDecimal :: "nat \<Rightarrow> string \<Rightarrow> nat option" where
  "parseDecimal acc [] = Some acc"
| "parseDecimal acc (c # cs) =
     (case digitVal c of None \<Rightarrow> None | Some v \<Rightarrow> parseDecimal (10 * acc + v) cs)"

definition parseField :: "nat \<Rightarrow> string \<Rightarrow> nat option" where
  "parseField limit s =
     (if s = [] \<or> length s > 3 \<or> (length s > 1 \<and> hd s = CHR ''0'') then None
      else case parseDecimal 0 s of
             None \<Rightarrow> None
           | Some n \<Rightarrow> if n \<le> limit then Some n else None)"

fun splitOn :: "char \<Rightarrow> string \<Rightarrow> string list" where
  "splitOn sep [] = [[]]"
| "splitOn sep (c # cs) =
     (if c = sep then [] # splitOn sep cs
      else (case splitOn sep cs of
              [] \<Rightarrow> [[c]]
            | f # fs \<Rightarrow> (c # f) # fs))"

definition showField :: "nat \<Rightarrow> string" where
  "showField n =
     (let d = (\<lambda>k. ''0123456789'' ! k) in
      if n < 10 then [d n]
      else if n < 100 then [d (n div 10), d (n mod 10)]
      else [d (n div 100), d (n div 10 mod 10), d (n mod 10)])"

definition netip_v4 :: "(nat list, nat list \<times> int) netip" where
  "netip_v4 =
     \<lparr>ParsePrefix = (\<lambda>s.
        if CHR ''/'' \<notin> set s then None
        else (let ip = rev (drop 1 (dropWhile (\<lambda>c. c \<noteq> CHR ''/'') (rev s)));
                  bitsStr = rev (takeWhile (\<lambda>c. c \<noteq> CHR ''/'') (rev s))
              in case map (parseField 255) (splitOn (CHR ''.'') ip) of
                   [Some a, Some b, Some c, Some d] \<Rightarrow>
                     (case parseField 32 bitsStr of
                        None \<Rightarrow> None
                      | Some bits \<Rightarrow> Some ([a, b, c, d], int bits))
                 | _ \<Rightarrow> None)),
      ParseAddr = (\<lambda>s.
        case map (parseField 255) (splitOn (CHR ''.'') s) of
          [Some a, Some b, Some c, Some d] \<Rightarrow> Some [a, b, c, d]
        | _ \<Rightarrow> None),
      Is4 = (\<lambda>addr. True),
      PrefixFrom = (\<lambda>addr bits. (addr, bits)),
      PrefixString = (\<lambda>(addr, bits).
        showField (addr ! 0) @ ''.'' @ showField (addr ! 1) @ ''.'' @ showField (addr ! 2) @ ''.''
          @ showField (addr ! 3) @ ''/'' @ showField (nat bits))\<rparr>"

subsection \<open>\<^verbatim>\<open>crypto/sha1\<close> and \<^verbatim>\<open>hex.EncodeToString\<close>\<close>

text \<open>
  The cache key is the SHA-1 digest of a message, written as 40 lower-case hexadecimal
  digits. SHA-1 is modelled as FIPS 180-4 defines it, over \<^typ>\<open>32 word\<close>: the message
  is padded with the byte \<^verbatim>\<open>0x80\<close>, zero bytes and its length in bits as 64 bits, and
  read as big-endian 32-bit words; each block of 16 words is extended to 80 words and
  absorbed in four stages of 20 rounds. In \<open>rotl\<close>, \<open>add32\<close> and \<open>f_ch\<close> the conjunction
  with \<^verbatim>\<open>0xFFFFFFFF\<close> does not change a 32-bit word; it keeps the numerals of an
  evaluation reduced.
\<close>

type_synonym u32 = "32 word"

definition rotl :: "nat \<Rightarrow> u32 \<Rightarrow> u32" where
  "rotl n x = (push_bit n x OR drop_bit (32 - n) x) AND 0xFFFFFFFF"

definition add32 :: "u32 \<Rightarrow> u32 \<Rightarrow> u32" where
  "add32 x y = (x + y) AND 0xFFFFFFFF"

fun zeros :: "nat \<Rightarrow> u32 list" where
  "zeros 0 = []"
| "zeros (Suc n) = 0 # zeros n"

text \<open>Four bytes, each held in a word, make one big-endian word.\<close>

fun be32 :: "u32 list \<Rightarrow> u32 list" where
  "be32 (a # b # c # d # bs) = (push_bit 24 a OR push_bit 16 b OR push_bit 8 c OR d) # be32 bs"
| "be32 bs = []"

definition sha1_pad :: "string \<Rightarrow> u32 list" where
  "sha1_pad m =
     (let l = length m
      in be32 (map of_char m @ [0x80] @ zeros ((119 - l mod 64) mod 64))
           @ [of_nat ((8 * l) div 2 ^ 32), of_nat (8 * l)])"

text \<open>
  The message schedule: \<open>hist\<close> holds the words computed so far, the latest first, and
  \<open>n\<close> more words are to come.
\<close>

fun schedule :: "nat \<Rightarrow> u32 list \<Rightarrow> u32 list" where
  "schedule 0 hist = rev hist"
| "schedule (Suc n) hist =
     schedule n (rotl 1 (hist ! 2 XOR hist ! 7 XOR hist ! 13 XOR hist ! 15) # hist)"

type_synonym sha1_state = "u32 \<times> u32 \<times> u32 \<times> u32 \<times> u32"

definition f_ch :: "u32 \<Rightarrow> u32 \<Rightarrow> u32 \<Rightarrow> u32" where
  "f_ch b c d = (b AND c) OR ((NOT b AND 0xFFFFFFFF) AND d)"

definition f_parity :: "u32 \<Rightarrow> u32 \<Rightarrow> u32 \<Rightarrow> u32" where
  "f_parity b c d = b XOR c XOR d"

definition f_maj :: "u32 \<Rightarrow> u32 \<Rightarrow> u32 \<Rightarrow> u32" where
  "f_maj b c d = (b AND c) OR (b AND d) OR (c AND d)"

fun rounds :: "(u32 \<Rightarrow> u32 \<Rightarrow> u32 \<Rightarrow> u32) \<Rightarrow> u32 \<Rightarrow> u32 list \<Rightarrow> sha1_state \<Rightarrow> sha1_state" where
  "rounds f k [] s = s"
| "rounds f k (w # ws) (a, b, c, d, e) =
     rounds f k ws (add32 (add32 (add32 (add32 (rotl 5 a) (f b c d)) e) w) k, a, rotl 30 b, c, d)"

definition sha1_block :: "u32 list \<Rightarrow> sha1_state \<Rightarrow> sha1_state" where
  "sha1_block blk s =
     (let w = schedule 64 (rev blk) in
      case s of (h0, h1, h2, h3, h4) \<Rightarrow>
      case rounds f_parity 0xCA62C1D6 (take 20 (drop 60 w))
             (rounds f_maj 0x8F1BBCDC (take 20 (drop 40 w))
               (rounds f_parity 0x6ED9EBA1 (take 20 (drop 20 w))
                 (rounds f_ch 0x5A827999 (take 20 w) s)))
      of (a, b, c, d, e) \<Rightarrow> (add32 h0 a, add32 h1 b, add32 h2 c, add32 h3 d, add32 h4 e))"

fun sha1_blocks :: "nat \<Rightarrow> u32 list \<Rightarrow> sha1_state \<Rightarrow> sha1_state" where
  "sha1_blocks 0 ws s = s"
| "sha1_blocks (Suc n) ws s = sha1_blocks n (drop 16 ws) (sha1_block (take 16 ws) s)"

definition hex32 :: "u32 \<Rightarrow> string" where
  "hex32 w =
     map (\<lambda>sh. ''0123456789abcdef'' ! unat (drop_bit sh w AND 0xF)) [28, 24, 20, 16, 12, 8, 4, 0]"

definition sha1_hex :: "string \<Rightarrow> string" where
  "sha1_hex m =
     (let ws = sha1_pad m in
      case sha1_blocks (length ws div 16) ws
             (0x67452301, 0xEFCDAB89, 0x98BADCFE, 0x10325476, 0xC3D2E1F0)
      of (a, b, c, d, e) \<Rightarrow> hex32 a @ hex32 b @ hex32 c @ hex32 d @ hex32 e)"

subsection \<open>\<^verbatim>\<open>checkCache\<close>, \<^verbatim>\<open>updateCache\<close> and \<^verbatim>\<open>fastQuery\<close>\<close>

text \<open>
  Both \<^verbatim>\<open>checkCache\<close> and \<^verbatim>\<open>updateCache\<close> compute their local
  \<^verbatim>\<open>cacheKey\<close> by the same statements: \<^verbatim>\<open>ss\<close> is the trimmed first element
  of the variadic \<^verbatim>\<open>s ...ECS\<close> when there is one and it is not empty, and the SHA-1
  digest of \<^verbatim>\<open>string(d) + string(t) + ss\<close> is written in hexadecimal.
  \<open>cacheKeyInput\<close> is the message that is hashed.
\<close>

definition cacheKeyInput :: "string \<Rightarrow> string \<Rightarrow> string list \<Rightarrow> string" where
  "cacheKeyInput d t s =
     (let ss = (if length s > 0 \<and> s ! 0 \<noteq> [] then TrimSpace (s ! 0) else [])
      in d @ t @ ss)"

definition cacheKey :: "string \<Rightarrow> string \<Rightarrow> string list \<Rightarrow> string" where
  "cacheKey d t s = sha1_hex (cacheKeyInput d t s)"

definition checkCache ::
  "Response cache \<Rightarrow> string \<Rightarrow> string \<Rightarrow> string list \<Rightarrow> 64 word
     \<Rightarrow> Response option \<times> bool" where
  "checkCache c d t s now =
     (case cache_Get c (cacheKey d t s) now of
        Some v \<Rightarrow> (Some v, True)
      | None \<Rightarrow> (None, False))"

definition updateCache ::
  "Response cache \<Rightarrow> string \<Rightarrow> string \<Rightarrow> Response \<Rightarrow> string list \<Rightarrow> 64 word
     \<Rightarrow> Response cache" where
  "updateCache c d t resp s now =
     (let ttl = (if length (Answer resp) > 0 then TTL (Answer resp ! 0) else 30)
      in cache_Set c (cacheKey d t s) resp (word_of_int ttl) now)"

text \<open>
  \<^verbatim>\<open>fastQuery\<close>. The field \<^verbatim>\<open>c.cache\<close> is \<^const>\<open>None\<close> when caching is
  disabled. One goroutine per entry of \<open>urls\<close> runs \<^verbatim>\<open>goQuery\<close>; \<open>attempts\<close> lists,
  in the order of completion, the provider index of each and what its \<^verbatim>\<open>c.query\<close>
  returned. The instants of the cache lookup and of the cache update are \<open>now\<^sub>1\<close> and
  \<open>now\<^sub>2\<close>. The result is the pair returned and the cache afterwards, or \<^const>\<open>None\<close>
  when \<^verbatim>\<open>collectResponses\<close> does not return.
\<close>

definition fastQuery ::
  "Response cache option \<Rightarrow> (int \<rightharpoonup> string) \<Rightarrow> string \<Rightarrow> string
     \<Rightarrow> string list \<Rightarrow> (int \<times> result) list \<Rightarrow> 64 word \<Rightarrow> 64 word
     \<Rightarrow> (result \<times> Response cache option) option" where
  "fastQuery cache urls d t s attempts now\<^sub>1 now\<^sub>2 =
     (case (case cache of
              None \<Rightarrow> None
            | Some c \<Rightarrow> (case checkCache c d t s now\<^sub>1 of (resp, ok) \<Rightarrow> if ok then resp else None))
      of
        Some resp \<Rightarrow> Some (Success resp, cache)
      | None \<Rightarrow>
          (let r = map (\<lambda>(k, res). goQuery_send res) attempts
           in case collectResponses r (int (card (dom urls))) of
                None \<Rightarrow> None
              | Some (Success resp) \<Rightarrow>
                  (case cache of
                     None \<Rightarrow> Some (Success resp, cache)
                   | Some c \<Rightarrow> Some (Success resp, Some (updateCache c d t resp s now\<^sub>2)))
              | Some res \<Rightarrow> Some (res, cache)))"

subsection \<open>Notions used in the statements\<close>

text \<open>The number of failed attempts among a sequence of outcomes (\<open>True\<close> is a failure).\<close>

definition failures :: "bool list \<Rightarrow> int" where
  "failures outcomes = int (length (filter (\<lambda>failed. failed) outcomes))"

text \<open>
  A state of the statistics of a client with the providers \<open>urls\<close>, together with an
  order \<open>ks\<close> in which \<^verbatim>\<open>range c.stats\<close> may visit it: every key once, every key
  an index of \<open>urls\<close> (the keys are the indices under which \<^verbatim>\<open>Query\<close> has started
  attempts), and every rate below 101, the initial value of \<^verbatim>\<open>minRate\<close>. Nothing is
  asked of the counters, nor of how a rate was computed.
\<close>

definition tracker_ok :: "string list \<Rightarrow> stats \<Rightarrow> int list \<Rightarrow> bool" where
  "tracker_ok urls st ks \<longleftrightarrow>
     distinct ks \<and> set ks = dom st \<and>
     (\<forall>k \<in> set ks. 0 \<le> k \<and> k < int (length urls) \<and>
        (case st k of None \<Rightarrow> False | Some s \<Rightarrow> failureRate s < 101))"

abbreviation rate :: "stats \<Rightarrow> int \<Rightarrow> real" where
  "rate st k \<equiv> failureRate (the (st k))"

section \<open>Properties\<close>

subsection \<open>The TTL cache\<close>

lemma cache_Set_key:
  "cache_Set c key v ttl now key = Some \<lparr>item_value = v, expiration = now + ttl * 1000000000\<rparr>"
  by (simp add: cache_Set_def time_Second_def)

lemma cache_Set_other:
  "key' \<noteq> key \<Longrightarrow> cache_Set c key v ttl now key' = c key'"
  by (simp add: cache_Set_def)

text \<open>Without overflow the 64-bit sum is the sum of the integers.\<close>

lemma sint_expiration:
  fixes now ttl :: "64 word"
  assumes "- (2 ^ 63) \<le> sint now + sint ttl * 1000000000"
    and "sint now + sint ttl * 1000000000 < 2 ^ 63"
  shows "sint (now + ttl * 1000000000) = sint now + sint ttl * 1000000000"
proof -
  have "now + ttl * 1000000000 = word_of_int (sint now + sint ttl * 1000000000)"
    by simp
  then have "sint (now + ttl * 1000000000) = signed_take_bit 63 (sint now + sint ttl * 1000000000)"
    by (simp only: sint_sbintrunc') simp
  also have "\<dots> = sint now + sint ttl * 1000000000"
    using assms by (simp add: signed_take_bit_int_eq_self)
  finally show ?thesis .
qed

text \<open>
  C5, as the code has it. \<^verbatim>\<open>Set\<close> stores the value with the expiration instant
  \<open>now + ttl * 10\<^sup>9\<close>, computed in 64-bit arithmetic that wraps around, and coerces
  nothing. Whenever the sum does not overflow, the instant is the creation time plus \<open>ttl\<close>
  seconds in nanoseconds; for \<open>ttl \<ge> 1\<close> that is the creation time plus \<open>max ttl 1\<close>
  seconds; for \<open>ttl \<le> 0\<close> the entry is expired for \<^verbatim>\<open>Get\<close> at every later
  instant.
\<close>

theorem cache_Set_expiration:
  fixes c :: "'v cache" and now ttl :: "64 word"
  shows "cache_Set c key v ttl now key
           = Some \<lparr>item_value = v, expiration = now + ttl * 1000000000\<rparr>
     \<and> (- (2 ^ 63) \<le> sint now + sint ttl * 1000000000 \<and> sint now + sint ttl * 1000000000 < 2 ^ 63
          \<longrightarrow> (\<exists>item. cache_Set c key v ttl now key = Some item
                 \<and> sint (expiration item) = sint now + sint ttl * 1000000000
                 \<and> (1 \<le> sint ttl \<longrightarrow>
                      sint (expiration item) = sint now + max (sint ttl) 1 * 1000000000)
                 \<and> (sint ttl \<le> 0 \<longrightarrow>
                      (\<forall>now'. sint now < sint now' \<longrightarrow>
                         cache_Get (cache_Set c key v ttl now) key now' = None))))"
proof (intro conjI impI)
  let ?item = "\<lparr>item_value = v, expiration = now + ttl * 1000000000\<rparr>"
  show stored: "cache_Set c key v ttl now key = Some ?item"
    by (rule cache_Set_key)
  assume range: "- (2 ^ 63) \<le> sint now + sint ttl * 1000000000
      \<and> sint now + sint ttl * 1000000000 < 2 ^ 63"
  then have exp: "sint (expiration ?item) = sint now + sint ttl * 1000000000"
    using sint_expiration [of now ttl] by simp
  have coerced: "1 \<le> sint ttl \<longrightarrow> sint (expiration ?item) = sint now + max (sint ttl) 1 * 1000000000"
    using exp by (simp add: max_def)
  have expired: "sint ttl \<le> 0 \<longrightarrow>
      (\<forall>now'. sint now < sint now' \<longrightarrow> cache_Get (cache_Set c key v ttl now) key now' = None)"
  proof (intro impI allI)
    fix now' :: "64 word"
    assume "sint ttl \<le> 0" and later: "sint now < sint now'"
    then have "sint (expiration ?item) \<le> sint now"
      using exp by simp
    with later have "word_sless (expiration ?item) now'"
      by (simp add: word_sless_alt)
    with stored show "cache_Get (cache_Set c key v ttl now) key now' = None"
      by (simp add: cache_Get_def)
  qed
  from stored exp coerced expired
  show "\<exists>item. cache_Set c key v ttl now key = Some item
          \<and> sint (expiration item) = sint now + sint ttl * 1000000000
          \<and> (1 \<le> sint ttl \<longrightarrow> sint (expiration item) = sint now + max (sint ttl) 1 * 1000000000)
          \<and> (sint ttl \<le> 0 \<longrightarrow>
               (\<forall>now'. sint now < sint now' \<longrightarrow>
                  cache_Get (cache_Set c key v ttl now) key now' = None))"
    by (intro exI [of _ ?item]) simp
qed

theorem cache_Set_expiration_witness:
  "cache_Set newCache ''k'' (7::nat) 60 5 ''k'' = Some \<lparr>item_value = 7, expiration = 60000000005\<rparr>
   \<and> sint (expiration (the (cache_Set newCache ''k'' (7::nat) 60 5 ''k''))) = 60000000005
   \<and> cache_Get (cache_Set newCache ''k'' (7::nat) 0 5) ''k'' 6 = None"
proof -
  have stored: "cache_Set newCache ''k'' (7::nat) 60 5 ''k''
      = Some \<lparr>item_value = 7, expiration = 60000000005\<rparr>"
    using cache_Set_expiration [of newCache "''k''" "7::nat" 60 5] by simp
  have "\<exists>item. cache_Set newCache ''k'' (7::nat) 60 5 ''k'' = Some item
      \<and> sint (expiration item) = sint (5 :: 64 word) + sint (60 :: 64 word) * 1000000000"
    using cache_Set_expiration [of newCache "''k''" "7::nat" 60 5] by auto
  then have first: "sint (expiration (the (cache_Set newCache ''k'' (7::nat) 60 5 ''k''))) = 60000000005"
    by auto
  have "sint (0 :: 64 word) \<le> 0 \<longrightarrow>
      (\<forall>now'. sint (5 :: 64 word) < sint now' \<longrightarrow>
         cache_Get (cache_Set newCache ''k'' (7::nat) 0 5) ''k'' now' = None)"
    using cache_Set_expiration [of newCache "''k''" "7::nat" 0 5] by auto
  then have "cache_Get (cache_Set newCache ''k'' (7::nat) 0 5) ''k'' 6 = None"
    by simp
  with stored first show ?thesis by simp
qed

text \<open>
  C5, as the claim states it, fails: a TTL of 0 is not coerced to one second. Set at instant
  5 with TTL 0, the entry expires at 5, not at \<open>5 + max 0 1 * 10\<^sup>9\<close>, and \<^verbatim>\<open>Get\<close> one
  nanosecond later finds nothing. Nor is the instant the sum of the integers when that sum
  leaves the 64 bits: set at instant \<open>1.79 * 10\<^sup>1\<^sup>8\<close> (a date in 2026) with a TTL of
  \<open>8 * 10\<^sup>9\<close> seconds, the entry has a negative expiration instant and \<^verbatim>\<open>Get\<close> at
  the same instant finds nothing.
\<close>

theorem cache_Set_coercion_counterexample:
  "sint (expiration (the (cache_Set newCache ''k'' (7::nat) 0 5 ''k'')))
     \<noteq> sint (5 :: 64 word) + max (sint (0 :: 64 word)) 1 * 1000000000
   \<and> cache_Get (cache_Set newCache ''k'' (7::nat) 0 5) ''k'' 6 = None
   \<and> sint (expiration (the (cache_Set newCache ''k'' (7::nat) 8000000000 1790000000000000000 ''k'')))
       = - 8656744073709551616
   \<and> cache_Get (cache_Set newCache ''k'' (7::nat) 8000000000 1790000000000000000) ''k''
        1790000000000000000 = None"
  by (simp add: cache_Set_def cache_Get_def newCache_def time_Second_def Let_def word_sless_alt)

text \<open>
  \<^verbatim>\<open>Get\<close> after \<^verbatim>\<open>Set\<close>: the value is returned as long as the instant of
  the read is not past the expiration instant, and nothing afterwards.
\<close>

theorem cache_Get_after_Set:
  "cache_Get (cache_Set c key v ttl now) key now' =
     (if sint (now + ttl * 1000000000) < sint now' then None else Some v)"
  by (simp add: cache_Get_def cache_Set_key word_sless_alt)

subsection \<open>The race: \<^verbatim>\<open>collectResponses\<close>\<close>

text \<open>
  While fewer than \<open>totalUrls\<close> values have been seen, errors are passed over and the first
  response ends the loop.
\<close>

lemma collectLoop_errs_then_resp:
  "seen + int (length errs) < totalUrls \<Longrightarrow>
   collectLoop (map ErrV errs @ RespV resp # rest) totalUrls fe seen = Some (Success resp)"
  by (induction errs arbitrary: fe seen) (auto simp: Let_def)

text \<open>When the last of \<open>totalUrls\<close> values is an error too, the first error is returned.\<close>

lemma collectLoop_all_errs:
  "errs \<noteq> [] \<Longrightarrow> seen + int (length errs) = totalUrls \<Longrightarrow>
   collectLoop (map ErrV errs) totalUrls fe seen =
     Some (Failure (case fe of Some e \<Rightarrow> e | None \<Rightarrow> hd errs))"
proof (induction errs arbitrary: fe seen)
  case Nil
  then show ?case by simp
next
  case (Cons e errs)
  show ?case
  proof (cases "errs = []")
    case True
    with Cons.prems show ?thesis
      by (auto simp: Let_def afterLoop_def split: option.splits)
  next
    case False
    with Cons.prems have "\<not> seen + 1 \<ge> totalUrls"
      by (cases errs) auto
    moreover from Cons.prems have "(seen + 1) + int (length errs) = totalUrls" by simp
    ultimately show ?thesis
      using Cons.IH [OF False, of "seen + 1"] by (auto simp: Let_def split: option.splits)
  qed
qed

text \<open>
  Every non-empty sequence of channel values has one of two shapes: some errors and then a
  response (and whatever follows it), or errors only.
\<close>

lemma chan_value_shapes:
  "r \<noteq> [] \<Longrightarrow>
   (\<exists>errs resp rest. r = map ErrV errs @ RespV resp # rest) \<or> (\<exists>e errs. r = map ErrV (e # errs))"
proof (induction r)
  case Nil
  then show ?case by simp
next
  case (Cons v r)
  show ?case
  proof (cases v)
    case (RespV resp)
    then have "v # r = map ErrV [] @ RespV resp # r" by simp
    then have "\<exists>errs resp rest. v # r = map ErrV errs @ RespV resp # rest"
      by (intro exI)
    then show ?thesis ..
  next
    case (ErrV e)
    show ?thesis
    proof (cases "r = []")
      case True
      with ErrV have "v # r = map ErrV (e # [])" by simp
      then have "\<exists>e errs. v # r = map ErrV (e # errs)"
        by (intro exI)
      then show ?thesis ..
    next
      case False
      from Cons.IH [OF False] show ?thesis
      proof
        assume "\<exists>errs resp rest. r = map ErrV errs @ RespV resp # rest"
        then obtain errs resp rest where "r = map ErrV errs @ RespV resp # rest" by blast
        with ErrV have "v # r = map ErrV (e # errs) @ RespV resp # rest" by simp
        then have "\<exists>errs resp rest. v # r = map ErrV errs @ RespV resp # rest"
          by (intro exI)
        then show ?thesis ..
      next
        assume "\<exists>e errs. r = map ErrV (e # errs)"
        then obtain e' errs where "r = map ErrV (e' # errs)" by blast
        with ErrV have "v # r = map ErrV (e # e' # errs)" by simp
        then have "\<exists>e errs. v # r = map ErrV (e # errs)"
          by (intro exI)
        then show ?thesis ..
      qed
    qed
  qed
qed

text \<open>
  C1. One attempt per selected provider sends one value, so \<open>totalUrls\<close> is the length of
  the sequence of values in completion order. If the sequence holds a response, the
  coordinator returns the first one, whatever errors precede it and whatever follows it; if
  it holds errors only, the coordinator returns the error that completed first.
\<close>

theorem collectResponses_first_outcome:
  "collectResponses (map ErrV errs @ RespV resp # rest)
       (int (length (map ErrV errs @ RespV resp # rest))) = Some (Success resp)
   \<and> collectResponses (map ErrV (e # errs)) (int (length (map ErrV (e # errs)))) = Some (Failure e)"
proof
  show "collectResponses (map ErrV errs @ RespV resp # rest)
       (int (length (map ErrV errs @ RespV resp # rest))) = Some (Success resp)"
    unfolding collectResponses_def by (rule collectLoop_errs_then_resp) simp
next
  have "collectLoop (map ErrV (e # errs)) (int (length (map ErrV (e # errs)))) None 0 =
     Some (Failure (case None of Some e \<Rightarrow> e | None \<Rightarrow> hd (e # errs)))"
    by (rule collectLoop_all_errs) simp_all
  then show "collectResponses (map ErrV (e # errs)) (int (length (map ErrV (e # errs)))) = Some (Failure e)"
    by (simp add: collectResponses_def)
qed

text \<open>
  C7, as the claim states it, fails. With no selected provider nothing is ever sent on the
  channel, and the channel is never closed: \<^verbatim>\<open>for v := range r\<close> waits for its
  first value and \<^verbatim>\<open>collectResponses\<close> does not return, nor does
  \<^verbatim>\<open>fastQuery\<close> when no cache entry serves the query. The
  \<^verbatim>\<open>return\<close> after the loop, which would report that all 0 providers failed, is
  not reached, and no other statement reports an empty set.
\<close>

theorem collectResponses_empty_blocks:
  "collectResponses [] 0 = None
   \<and> fastQuery None Map.empty ''example.com'' ''A'' [] [] 0 0 = None"
  by (simp add: collectResponses_def fastQuery_def)

text \<open>
  When every one of a positive number of attempts sends its value, the coordinator returns:
  a response that was sent, or an error that was sent.
\<close>

lemma collectResponses_returns:
  assumes "r \<noteq> []"
  shows "(\<exists>resp. RespV resp \<in> set r \<and> collectResponses r (int (length r)) = Some (Success resp))
       \<or> (\<exists>e. ErrV e \<in> set r \<and> collectResponses r (int (length r)) = Some (Failure e))"
  using chan_value_shapes [OF assms]
proof
  assume "\<exists>errs resp rest. r = map ErrV errs @ RespV resp # rest"
  then obtain errs resp rest where r: "r = map ErrV errs @ RespV resp # rest" by blast
  have "collectLoop (map ErrV errs @ RespV resp # rest)
          (int (length (map ErrV errs @ RespV resp # rest))) None 0 = Some (Success resp)"
    by (rule collectLoop_errs_then_resp) simp
  with r have "RespV resp \<in> set r \<and> collectResponses r (int (length r)) = Some (Success resp)"
    by (simp add: collectResponses_def)
  then show ?thesis by blast
next
  assume "\<exists>e errs. r = map ErrV (e # errs)"
  then obtain e errs where r: "r = map ErrV (e # errs)" by blast
  have "collectLoop (map ErrV (e # errs)) (int (length (map ErrV (e # errs)))) None 0 =
     Some (Failure (case None of Some e \<Rightarrow> e | None \<Rightarrow> hd (e # errs)))"
    by (rule collectLoop_all_errs) simp_all
  with r have "ErrV e \<in> set r \<and> collectResponses r (int (length r)) = Some (Failure e)"
    by (simp add: collectResponses_def)
  then show ?thesis by blast
qed

text \<open>A response that the coordinator returns was sent on the channel.\<close>

lemma collectLoop_Success_mem:
  "collectLoop r totalUrls fe seen = Some (Success resp) \<Longrightarrow> RespV resp \<in> set r"
proof (induction r arbitrary: fe seen)
  case Nil
  then show ?case by simp
next
  case (Cons v r)
  show ?case
  proof (cases v)
    case (RespV resp')
    with Cons.prems show ?thesis by simp
  next
    case (ErrV e)
    show ?thesis
    proof (cases "seen + 1 \<ge> totalUrls")
      case True
      with Cons.prems ErrV show ?thesis
        by (simp add: Let_def afterLoop_def split: option.splits if_splits)
    next
      case False
      with Cons.prems ErrV
      have "collectLoop r totalUrls (if fe = None then Some e else fe) (seen + 1) = Some (Success resp)"
        by (simp add: Let_def)
      from Cons.IH [OF this] show ?thesis by simp
    qed
  qed
qed

subsection \<open>\<^verbatim>\<open>float64\<close>\<close>

text \<open>Equations that let the simplifier run the rounding on numerals.\<close>

lemma normalise_unfold:
  "normalise n x k =
     (if n = 0 then (x, k)
      else if x < 2 ^ 52 then normalise (n - 1) (2 * x) (k - 1)
      else if 2 ^ 53 \<le> x then normalise (n - 1) (x / 2) (k + 1)
      else (x, k))"
  by (cases n) simp_all

lemmas float64_eval =
  round64_def float64_of_int_def float64_div_def float64_mul_def
  normalise_unfold roundEven_def pow2_def Let_def

text \<open>
  The model against the machine: \<^verbatim>\<open>1.0 / 3.0\<close> is \<^verbatim>\<open>0x3FD5555555555555\<close>,
  \<^verbatim>\<open>0.1\<close> is the nearest number to one tenth, and a tie goes to the even significand
  (\<open>2\<^sup>5\<^sup>3 + 1\<close> down to \<open>2\<^sup>5\<^sup>3\<close>, \<open>2\<^sup>5\<^sup>3 + 3\<close> up to \<open>2\<^sup>5\<^sup>3 + 4\<close>).
\<close>

lemma float64_div_third: "float64_div 1 3 = 6004799503160661 / 2 ^ 54"
  by (simp add: float64_eval)

lemma float64_div_tenth: "float64_div 1 10 = 3602879701896397 / 2 ^ 55"
  by (simp add: float64_eval)

lemma float64_of_int_ties:
  "float64_of_int 9007199254740993 = 9007199254740992
   \<and> float64_of_int 9007199254740995 = 9007199254740996
   \<and> float64_of_int (- 9007199254740993) = - 9007199254740992"
  by (simp add: float64_eval)

text \<open>A number below \<open>2\<^sup>5\<^sup>3\<close> is only ever doubled.\<close>

lemma normalise_small:
  "x < 2 ^ 53 \<Longrightarrow> \<exists>j. normalise n x k = (x * 2 ^ j, k - int j)"
proof (induction n arbitrary: x k)
  case 0
  have "normalise 0 x k = (x * 2 ^ 0, k - int 0)" by simp
  then show ?case by blast
next
  case (Suc n)
  show ?case
  proof (cases "x < 2 ^ 52")
    case True
    then have "2 * x < 2 ^ 53" by simp
    from Suc.IH [OF this, of "k - 1"]
    obtain j where "normalise n (2 * x) (k - 1) = (2 * x * 2 ^ j, k - 1 - int j)"
      by blast
    with True have "normalise (Suc n) x k = (x * 2 ^ Suc j, k - int (Suc j))"
      by simp
    then show ?thesis by blast
  next
    case False
    with Suc.prems have "normalise (Suc n) x k = (x * 2 ^ 0, k - int 0)" by simp
    then show ?thesis by blast
  qed
qed

lemma normalise_nonneg: "0 \<le> x \<Longrightarrow> 0 \<le> fst (normalise n x k)"
  by (induction n arbitrary: x k) simp_all

lemma roundEven_nonneg: "0 \<le> x \<Longrightarrow> 0 \<le> roundEven x"
  by (simp add: roundEven_def Let_def)

lemma roundEven_le:
  assumes "x \<le> of_int M"
  shows "roundEven x \<le> M"
proof -
  from assms have fl: "\<lfloor>x\<rfloor> \<le> M" by (simp add: floor_le_iff)
  show ?thesis
  proof (cases "x - of_int \<lfloor>x\<rfloor> < 1 / 2")
    case True
    with fl show ?thesis by (simp add: roundEven_def Let_def)
  next
    case False
    then have "x \<noteq> of_int M" by auto
    with assms have "x < of_int M" by simp
    then have "\<lfloor>x\<rfloor> < M" by (simp add: floor_less_iff)
    then show ?thesis by (simp add: roundEven_def Let_def)
  qed
qed

lemma roundEven_of_int: "roundEven (of_int n) = n"
  by (simp add: roundEven_def Let_def)

lemma pow2_pos: "0 < pow2 k"
  by (simp add: pow2_def)

lemma pow2_neg: "pow2 (- int j) = 1 / 2 ^ j"
  by (simp add: pow2_def)

text \<open>Rounding keeps the sign, and does not cross an integer below \<open>2\<^sup>5\<^sup>3\<close>.\<close>

lemma round64_nonneg:
  assumes "0 \<le> x"
  shows "0 \<le> round64 x"
proof (cases "x = 0")
  case True
  then show ?thesis by (simp add: round64_def)
next
  case False
  obtain m k where n: "normalise 2200 \<bar>x\<bar> 0 = (m, k)" by (cases "normalise 2200 \<bar>x\<bar> 0")
  from normalise_nonneg [of "\<bar>x\<bar>" 2200 0] n have "0 \<le> m" by simp
  then have "0 \<le> real_of_int (roundEven m) * pow2 k"
    using roundEven_nonneg [of m] pow2_pos [of k] by simp
  with False assms n show ?thesis by (simp add: round64_def)
qed

lemma round64_le:
  assumes "0 \<le> x" and "x \<le> of_int N" and "N < 2 ^ 53"
  shows "round64 x \<le> of_int N"
proof (cases "x = 0")
  case True
  with assms show ?thesis by (simp add: round64_def)
next
  case False
  with assms have pos: "0 < x" by simp
  from assms(3) have "real_of_int N < 2 ^ 53" by (metis of_int_less_numeral_power_cancel_iff)
  with assms(2) have "x < 2 ^ 53" by simp
  then have "\<bar>x\<bar> < 2 ^ 53" using pos by simp
  from normalise_small [OF this, of 2200 0]
  obtain j where n: "normalise 2200 \<bar>x\<bar> 0 = (\<bar>x\<bar> * 2 ^ j, 0 - int j)" by auto
  from assms(2) pos have "\<bar>x\<bar> * 2 ^ j \<le> of_int (N * 2 ^ j)" by simp
  then have "roundEven (\<bar>x\<bar> * 2 ^ j) \<le> N * 2 ^ j" by (rule roundEven_le)
  then have "real_of_int (roundEven (\<bar>x\<bar> * 2 ^ j)) \<le> real_of_int (N * 2 ^ j)"
    by (simp only: of_int_le_iff)
  then have "real_of_int (roundEven (\<bar>x\<bar> * 2 ^ j)) / 2 ^ j \<le> real_of_int N"
    by (simp add: divide_le_eq)
  with pos n show ?thesis by (simp add: round64_def pow2_neg)
qed

text \<open>A counter below \<open>2\<^sup>5\<^sup>3\<close> is converted exactly.\<close>

lemma float64_of_int_exact:
  assumes "0 \<le> n" and "n < 2 ^ 53"
  shows "float64_of_int n = of_int n"
proof (cases "n = 0")
  case True
  then show ?thesis by (simp add: float64_of_int_def round64_def)
next
  case False
  with assms have pos: "0 < real_of_int n" by simp
  from assms(2) have "real_of_int n < 2 ^ 53" by (metis of_int_less_numeral_power_cancel_iff)
  then have "\<bar>real_of_int n\<bar> < 2 ^ 53" using pos by simp
  from normalise_small [OF this, of 2200 0]
  obtain j where n: "normalise 2200 \<bar>real_of_int n\<bar> 0 = (\<bar>real_of_int n\<bar> * 2 ^ j, 0 - int j)"
    by auto
  have "\<bar>real_of_int n\<bar> * 2 ^ j = of_int (n * 2 ^ j)" using pos by simp
  then have "roundEven (\<bar>real_of_int n\<bar> * 2 ^ j) = n * 2 ^ j"
    by (simp only: roundEven_of_int)
  with pos n False show ?thesis by (simp add: float64_of_int_def round64_def pow2_neg)
qed

text \<open>The rate computed from counters below \<open>2\<^sup>5\<^sup>3\<close> lies between 0 and 100.\<close>

lemma float64_rate_range:
  assumes "0 \<le> f" and "f \<le> a" and "1 \<le> a" and "a < 2 ^ 53"
  shows "0 \<le> float64_mul (float64_div (float64_of_int f) (float64_of_int a)) 100
       \<and> float64_mul (float64_div (float64_of_int f) (float64_of_int a)) 100 \<le> 100"
proof -
  from assms have F: "float64_of_int f = of_int f" by (intro float64_of_int_exact) simp_all
  from assms have A: "float64_of_int a = of_int a" by (intro float64_of_int_exact) simp_all
  define q where "q = float64_div (float64_of_int f) (float64_of_int a)"
  from assms have x0: "0 \<le> real_of_int f / real_of_int a" by simp
  from assms have x1: "real_of_int f / real_of_int a \<le> of_int 1" by (simp add: divide_le_eq)
  have q0: "0 \<le> q" unfolding q_def float64_div_def F A using x0 by (rule round64_nonneg)
  have q1: "q \<le> of_int 1" unfolding q_def float64_div_def F A using x0 x1 by (rule round64_le) simp
  from q0 have y0: "0 \<le> q * 100" by simp
  from q1 have y1: "q * 100 \<le> of_int 100" by simp
  have "0 \<le> round64 (q * 100)" using y0 by (rule round64_nonneg)
  moreover have "round64 (q * 100) \<le> of_int 100" using y0 y1 by (rule round64_le) simp
  ultimately show ?thesis by (simp add: float64_mul_def q_def)
qed

subsection \<open>The reliability statistics\<close>

lemma recordAttempt_key:
  "recordAttempt st k failed k =
     (let f0 = (case st k of None \<Rightarrow> 0 | Some s \<Rightarrow> failureCount s);
          a0 = (case st k of None \<Rightarrow> 0 | Some s \<Rightarrow> attemptCount s);
          f = f0 + (if failed then 1 else 0);
          a = a0 + 1
      in Some \<lparr>failureCount = f, attemptCount = a,
               failureRate = float64_mul (float64_div (float64_of_int f) (float64_of_int a)) 100\<rparr>)"
  by (simp add: recordAttempt_def Let_def split: option.splits)

lemma recordAttempt_other: "j \<noteq> k \<Longrightarrow> recordAttempt st k failed j = st j"
  by (simp add: recordAttempt_def Let_def)

text \<open>
  The records that \<^verbatim>\<open>goQuery\<close> writes, as long as the attempt counter stays below
  \<open>2\<^sup>5\<^sup>3\<close>: at least one attempt, no more failures than attempts, and a rate between 0 and
  100, hence below the 101 that \<^verbatim>\<open>Query\<close> starts its search from.
\<close>

theorem recordAttempt_rate_range:
  assumes "\<forall>s0. st k = Some s0 \<longrightarrow>
             0 \<le> failureCount s0 \<and> failureCount s0 \<le> attemptCount s0 \<and> attemptCount s0 + 1 < 2 ^ 53"
  shows "\<exists>s. recordAttempt st k failed k = Some s
           \<and> 0 \<le> failureCount s \<and> failureCount s \<le> attemptCount s \<and> 1 \<le> attemptCount s
           \<and> attemptCount s < 2 ^ 53
           \<and> 0 \<le> failureRate s \<and> failureRate s \<le> 100"
proof -
  define f where "f = (case st k of None \<Rightarrow> 0 | Some s \<Rightarrow> failureCount s) + (if failed then 1 else 0)"
  define a where "a = (case st k of None \<Rightarrow> 0 | Some s \<Rightarrow> attemptCount s) + 1"
  from assms have counts: "0 \<le> f \<and> f \<le> a \<and> 1 \<le> a \<and> a < 2 ^ 53"
    by (cases "st k") (auto simp: f_def a_def)
  then have "0 \<le> float64_mul (float64_div (float64_of_int f) (float64_of_int a)) 100
       \<and> float64_mul (float64_div (float64_of_int f) (float64_of_int a)) 100 \<le> 100"
    by (intro float64_rate_range) simp_all
  with counts show ?thesis
    by (simp add: recordAttempt_key Let_def f_def a_def)
qed

theorem recordAttempt_rate_range_witness:
  "\<exists>s. recordAttempt [0 \<mapsto> \<lparr>failureCount = 1, attemptCount = 2, failureRate = 50\<rparr>] 0 False 0 = Some s
      \<and> failureCount s \<le> attemptCount s \<and> 0 \<le> failureRate s \<and> failureRate s \<le> 100"
proof -
  have "\<exists>s. recordAttempt [0 \<mapsto> \<lparr>failureCount = 1, attemptCount = 2, failureRate = 50\<rparr>] 0 False 0 = Some s
           \<and> 0 \<le> failureCount s \<and> failureCount s \<le> attemptCount s \<and> 1 \<le> attemptCount s
           \<and> attemptCount s < 2 ^ 53
           \<and> 0 \<le> failureRate s \<and> failureRate s \<le> 100"
    by (rule recordAttempt_rate_range) simp
  then show ?thesis by blast
qed

lemma recordAttempts_counts:
  "outcomes \<noteq> [] \<Longrightarrow>
   recordAttempts st k outcomes k =
     (let f = (case st k of None \<Rightarrow> 0 | Some s \<Rightarrow> failureCount s) + failures outcomes;
          a = (case st k of None \<Rightarrow> 0 | Some s \<Rightarrow> attemptCount s) + int (length outcomes)
      in Some \<lparr>failureCount = f, attemptCount = a,
               failureRate = float64_mul (float64_div (float64_of_int f) (float64_of_int a)) 100\<rparr>)"
proof (induction outcomes arbitrary: st)
  case Nil
  then show ?case by simp
next
  case (Cons failed outcomes)
  show ?case
  proof (cases "outcomes = []")
    case True
    then show ?thesis
      by (simp add: recordAttempt_key Let_def failures_def)
  next
    case False
    from Cons.IH [OF False, of "recordAttempt st k failed"] show ?thesis
      by (simp add: recordAttempt_key Let_def failures_def add.assoc)
  qed
qed

text \<open>
  C3, as the code has it. An attempt count is never negative. After
  \<^verbatim>\<open>recordAttempt\<close> the record of the provider has at least one attempt and its rate
  is the \<^verbatim>\<open>float64\<close> value of
  \<^verbatim>\<open>float64(failureCount) / float64(attemptCount) * 100\<close>: the quotient rounded, then
  the product rounded. \<open>N \<ge> 1\<close> attempts on a provider, \<open>failures\<close> of them failed, add
  \<open>failures\<close> and \<open>N\<close> to its counters and leave the rate computed in this way from the
  counters; on a provider without a record (a new client, or one just reset) the counters
  are \<open>failures\<close> and \<open>N\<close> and the rate is \<^verbatim>\<open>(failures / N) * 100\<close> as
  \<^verbatim>\<open>float64\<close> evaluates it.
\<close>

theorem recordAttempt_failureRate:
  assumes "\<forall>s0. st k = Some s0 \<longrightarrow> 0 \<le> attemptCount s0"
  shows "(\<exists>s. recordAttempt st k failed k = Some s
            \<and> 1 \<le> attemptCount s
            \<and> failureRate s
                 = float64_mul
                     (float64_div (float64_of_int (failureCount s)) (float64_of_int (attemptCount s)))
                     100)
       \<and> (outcomes \<noteq> [] \<longrightarrow>
            (\<exists>s. recordAttempts st k outcomes k = Some s
               \<and> failureCount s
                    = (case st k of None \<Rightarrow> 0 | Some s0 \<Rightarrow> failureCount s0) + failures outcomes
               \<and> attemptCount s
                    = (case st k of None \<Rightarrow> 0 | Some s0 \<Rightarrow> attemptCount s0) + int (length outcomes)
               \<and> 1 \<le> attemptCount s
               \<and> failureRate s
                    = float64_mul
                        (float64_div (float64_of_int (failureCount s)) (float64_of_int (attemptCount s)))
                        100))
       \<and> (st k = None \<and> outcomes \<noteq> [] \<longrightarrow>
            (\<exists>s. recordAttempts st k outcomes k = Some s
               \<and> attemptCount s = int (length outcomes)
               \<and> failureCount s = failures outcomes
               \<and> failureRate s
                    = float64_mul
                        (float64_div (float64_of_int (failures outcomes))
                           (float64_of_int (int (length outcomes))))
                        100))"
proof (intro conjI)
  show "\<exists>s. recordAttempt st k failed k = Some s
            \<and> 1 \<le> attemptCount s
            \<and> failureRate s
                 = float64_mul
                     (float64_div (float64_of_int (failureCount s)) (float64_of_int (attemptCount s)))
                     100"
    using assms by (cases "st k") (simp_all add: recordAttempt_key Let_def)
next
  show "outcomes \<noteq> [] \<longrightarrow>
            (\<exists>s. recordAttempts st k outcomes k = Some s
               \<and> failureCount s
                    = (case st k of None \<Rightarrow> 0 | Some s0 \<Rightarrow> failureCount s0) + failures outcomes
               \<and> attemptCount s
                    = (case st k of None \<Rightarrow> 0 | Some s0 \<Rightarrow> attemptCount s0) + int (length outcomes)
               \<and> 1 \<le> attemptCount s
               \<and> failureRate s
                    = float64_mul
                        (float64_div (float64_of_int (failureCount s)) (float64_of_int (attemptCount s)))
                        100)"
  proof
    assume ne: "outcomes \<noteq> []"
    then have "1 \<le> int (length outcomes)" by (cases outcomes) simp_all
    with assms
    have "1 \<le> (case st k of None \<Rightarrow> 0 | Some s0 \<Rightarrow> attemptCount s0) + int (length outcomes)"
      by (cases "st k") simp_all
    with ne show "\<exists>s. recordAttempts st k outcomes k = Some s
               \<and> failureCount s
                    = (case st k of None \<Rightarrow> 0 | Some s0 \<Rightarrow> failureCount s0) + failures outcomes
               \<and> attemptCount s
                    = (case st k of None \<Rightarrow> 0 | Some s0 \<Rightarrow> attemptCount s0) + int (length outcomes)
               \<and> 1 \<le> attemptCount s
               \<and> failureRate s
                    = float64_mul
                        (float64_div (float64_of_int (failureCount s)) (float64_of_int (attemptCount s)))
                        100"
      by (simp add: recordAttempts_counts Let_def)
  qed
next
  show "st k = None \<and> outcomes \<noteq> [] \<longrightarrow>
            (\<exists>s. recordAttempts st k outcomes k = Some s
               \<and> attemptCount s = int (length outcomes)
               \<and> failureCount s = failures outcomes
               \<and> failureRate s
                    = float64_mul
                        (float64_div (float64_of_int (failures outcomes))
                           (float64_of_int (int (length outcomes))))
                        100)"
    by (simp add: recordAttempts_counts Let_def)
qed

theorem recordAttempt_failureRate_witness:
  "(\<exists>s. recordAttempts Map.empty 2 [True, False, True, True] 2 = Some s
      \<and> attemptCount s = 4 \<and> failureCount s = 3 \<and> failureRate s = 75)
   \<and> (\<exists>s. recordAttempts Map.empty 2 [False, False, True] 2 = Some s
      \<and> attemptCount s = 3 \<and> failureCount s = 1 \<and> failureRate s = 4691249611844266 / 2 ^ 47)
   \<and> (\<exists>s. recordAttempts [2 \<mapsto> \<lparr>failureCount = 1, attemptCount = 1, failureRate = 100\<rparr>] 2 [False] 2
              = Some s
      \<and> attemptCount s = 2 \<and> failureCount s = 1 \<and> failureRate s = 50)"
proof -
  have r1: "float64_mul (float64_div (float64_of_int 3) (float64_of_int 4)) 100 = 75"
    by (simp add: float64_eval)
  have r2: "float64_mul (float64_div (float64_of_int 1) (float64_of_int 3)) 100
      = 4691249611844266 / 2 ^ 47"
    by (simp add: float64_eval)
  have r3: "float64_mul (float64_div (float64_of_int 1) (float64_of_int 2)) 100 = 50"
    by (simp add: float64_eval)
  have "\<exists>s. recordAttempts Map.empty 2 [True, False, True, True] 2 = Some s
      \<and> attemptCount s = 4 \<and> failureCount s = 3 \<and> failureRate s = 75"
    using recordAttempt_failureRate [of Map.empty 2 True "[True, False, True, True]"] r1
    by (simp add: failures_def)
  moreover have "\<exists>s. recordAttempts Map.empty 2 [False, False, True] 2 = Some s
      \<and> attemptCount s = 3 \<and> failureCount s = 1 \<and> failureRate s = 4691249611844266 / 2 ^ 47"
    using recordAttempt_failureRate [of Map.empty 2 True "[False, False, True]"] r2
    by (simp add: failures_def)
  moreover have "\<exists>s. recordAttempts [2 \<mapsto> \<lparr>failureCount = 1, attemptCount = 1, failureRate = 100\<rparr>] 2 [False] 2
              = Some s
      \<and> attemptCount s = 2 \<and> failureCount s = 1 \<and> failureRate s = 50"
  proof -
    let ?st = "[2 \<mapsto> \<lparr>failureCount = 1, attemptCount = 1, failureRate = 100\<rparr>] :: stats"
    have pre: "\<forall>s0. ?st 2 = Some s0 \<longrightarrow> 0 \<le> attemptCount s0" by simp
    from recordAttempt_failureRate [of ?st 2 False "[False]"] pre
    have "\<exists>s. recordAttempts ?st 2 [False] 2 = Some s
               \<and> failureCount s = 1 + failures [False]
               \<and> attemptCount s = 1 + int (length [False])
               \<and> 1 \<le> attemptCount s
               \<and> failureRate s
                    = float64_mul
                        (float64_div (float64_of_int (failureCount s)) (float64_of_int (attemptCount s)))
                        100"
      by simp
    then obtain s where run: "recordAttempts ?st 2 [False] 2 = Some s"
      and f: "failureCount s = 1" and a: "attemptCount s = 2"
      and rate: "failureRate s
          = float64_mul (float64_div (float64_of_int (failureCount s)) (float64_of_int (attemptCount s))) 100"
      by (auto simp: failures_def)
    from rate f a r3 have "failureRate s = 50" by simp
    with run f a show ?thesis by simp
  qed
  ultimately show ?thesis by simp
qed

text \<open>
  C3, as the claim states it, fails: the rate is not \<open>100 * failureCount / attemptCount\<close>.
  After one failure in three attempts the rate stored is \<open>4691249611844266 / 2\<^sup>4\<^sup>7\<close>, which
  Go prints as \<^verbatim>\<open>33.33333333333333\<close>: it is not the number \<open>100 / 3\<close>, and it is not
  what \<^verbatim>\<open>float64\<close> gives for \<^verbatim>\<open>100 * 1 / 3\<close> either, which is
  \<open>4691249611844267 / 2\<^sup>4\<^sup>7\<close>, printed as \<^verbatim>\<open>33.333333333333336\<close>.
\<close>

theorem recordAttempt_rounding_counterexample:
  "recordAttempts Map.empty 0 [True, False, False] 0
     = Some \<lparr>failureCount = 1, attemptCount = 3, failureRate = 4691249611844266 / 2 ^ 47\<rparr>
   \<and> failureRate (the (recordAttempts Map.empty 0 [True, False, False] 0))
        \<noteq> 100 * real_of_int 1 / real_of_int 3
   \<and> failureRate (the (recordAttempts Map.empty 0 [True, False, False] 0))
        \<noteq> float64_div (float64_mul 100 (float64_of_int 1)) (float64_of_int 3)
   \<and> float64_div (float64_mul 100 (float64_of_int 1)) (float64_of_int 3) = 4691249611844267 / 2 ^ 47"
proof -
  have stored: "float64_mul (float64_div (float64_of_int 1) (float64_of_int 3)) 100
      = 4691249611844266 / 2 ^ 47"
    by (simp add: float64_eval)
  have other: "float64_div (float64_mul 100 (float64_of_int 1)) (float64_of_int 3)
      = 4691249611844267 / 2 ^ 47"
    by (simp add: float64_eval)
  have run: "recordAttempts Map.empty 0 [True, False, False] 0
      = Some \<lparr>failureCount = 1, attemptCount = 3, failureRate = 4691249611844266 / 2 ^ 47\<rparr>"
    by (simp add: recordAttempt_def Let_def stored)
  have ne1: "(4691249611844266 / 2 ^ 47 :: real) \<noteq> 100 * real_of_int 1 / real_of_int 3"
    by simp
  have ne2: "(4691249611844266 / 2 ^ 47 :: real) \<noteq> 4691249611844267 / 2 ^ 47"
    by simp
  from run other ne1 ne2 show ?thesis by simp
qed

subsection \<open>Provider selection\<close>

text \<open>
  The loop over the statistics either keeps its initial state, no visited rate being below
  the initial one, or ends at a visited provider: its rate is below the initial rate, below
  the rate of every provider visited before it and not above the rate of any provider
  visited after it.
\<close>

lemma scanStats_first:
  assumes "\<forall>k \<in> set ks. st k \<noteq> None"
  shows "case scanStats st ks (mi, mr) of (mi', mr') \<Rightarrow>
           (mi', mr') = (mi, mr) \<and> (\<forall>k \<in> set ks. mr \<le> rate st k)
           \<or> (\<exists>pre post. ks = pre @ mi' # post \<and> mr' = rate st mi' \<and> mr' < mr
                 \<and> (\<forall>j \<in> set pre. mr' < rate st j) \<and> (\<forall>j \<in> set post. mr' \<le> rate st j))"
  using assms
proof (induction ks arbitrary: mi mr)
  case Nil
  then show ?case by simp
next
  case (Cons k ks)
  from Cons.prems obtain v where v: "st k = Some v" by auto
  from Cons.prems have rest: "\<forall>k \<in> set ks. st k \<noteq> None" by simp
  show ?case
  proof (cases "failureRate v < mr")
    case True
    obtain mi' mr' where res: "scanStats st ks (k, failureRate v) = (mi', mr')"
      by (cases "scanStats st ks (k, failureRate v)")
    with True v have step: "scanStats st (k # ks) (mi, mr) = (mi', mr')" by simp
    from Cons.IH [OF rest, where mi = k and mr = "failureRate v"] res
    consider (kept) "(mi', mr') = (k, failureRate v)" "\<forall>j \<in> set ks. failureRate v \<le> rate st j"
      | (moved) pre post where "ks = pre @ mi' # post" "mr' = rate st mi'" "mr' < failureRate v"
          "\<forall>j \<in> set pre. mr' < rate st j" "\<forall>j \<in> set post. mr' \<le> rate st j"
      by auto
    then have "\<exists>pre post. k # ks = pre @ mi' # post \<and> mr' = rate st mi' \<and> mr' < mr
                 \<and> (\<forall>j \<in> set pre. mr' < rate st j) \<and> (\<forall>j \<in> set post. mr' \<le> rate st j)"
    proof cases
      case kept
      with True v have "k # ks = [] @ mi' # ks \<and> mr' = rate st mi' \<and> mr' < mr
                 \<and> (\<forall>j \<in> set []. mr' < rate st j) \<and> (\<forall>j \<in> set ks. mr' \<le> rate st j)"
        by simp
      then show ?thesis by blast
    next
      case moved
      with True v have "k # ks = (k # pre) @ mi' # post \<and> mr' = rate st mi' \<and> mr' < mr
                 \<and> (\<forall>j \<in> set (k # pre). mr' < rate st j) \<and> (\<forall>j \<in> set post. mr' \<le> rate st j)"
        by simp
      then show ?thesis by blast
    qed
    with step show ?thesis by simp
  next
    case False
    obtain mi' mr' where res: "scanStats st ks (mi, mr) = (mi', mr')"
      by (cases "scanStats st ks (mi, mr)")
    with False v have step: "scanStats st (k # ks) (mi, mr) = (mi', mr')" by simp
    from Cons.IH [OF rest, where mi = mi and mr = mr] res
    consider (kept) "(mi', mr') = (mi, mr)" "\<forall>j \<in> set ks. mr \<le> rate st j"
      | (moved) pre post where "ks = pre @ mi' # post" "mr' = rate st mi'" "mr' < mr"
          "\<forall>j \<in> set pre. mr' < rate st j" "\<forall>j \<in> set post. mr' \<le> rate st j"
      by auto
    then have "(mi', mr') = (mi, mr) \<and> (\<forall>j \<in> set (k # ks). mr \<le> rate st j)
           \<or> (\<exists>pre post. k # ks = pre @ mi' # post \<and> mr' = rate st mi' \<and> mr' < mr
                 \<and> (\<forall>j \<in> set pre. mr' < rate st j) \<and> (\<forall>j \<in> set post. mr' \<le> rate st j))"
    proof cases
      case kept
      with False v show ?thesis by simp
    next
      case moved
      with False v have "k # ks = (k # pre) @ mi' # post \<and> mr' = rate st mi' \<and> mr' < mr
                 \<and> (\<forall>j \<in> set (k # pre). mr' < rate st j) \<and> (\<forall>j \<in> set post. mr' \<le> rate st j)"
        by simp
      then show ?thesis by blast
    qed
    with step show ?thesis by simp
  qed
qed

lemma rangeUrls_eq:
  "rangeUrls i us m =
     (\<lambda>j. if i \<le> j \<and> j < i + int (length us) then Some (us ! nat (j - i)) else m j)"
proof (induction us arbitrary: i m)
  case Nil
  show ?case by (rule ext) auto
next
  case (Cons u us)
  show ?case
  proof
    fix j
    show "rangeUrls i (u # us) m j =
       (if i \<le> j \<and> j < i + int (length (u # us)) then Some ((u # us) ! nat (j - i)) else m j)"
    proof (cases "j = i")
      case True
      then show ?thesis by (simp add: Cons.IH)
    next
      case False
      then have "i \<le> j \<Longrightarrow> nat (j - i) = Suc (nat (j - (i + 1)))" by simp
      with False show ?thesis by (auto simp: Cons.IH)
    qed
  qed
qed

text \<open>Without a selection, every configured provider is queried, under its index.\<close>

lemma rangeUrls_all:
  "rangeUrls 0 urls Map.empty =
     (\<lambda>i. if 0 \<le> i \<and> i < int (length urls) then Some (urls ! nat i) else None)"
  by (rule ext) (simp add: rangeUrls_eq)

text \<open>The index that the loop ends with is the initial one or a key it has visited.\<close>

lemma scanStats_index:
  "fst (scanStats st ks (mi, mr)) = mi \<or> fst (scanStats st ks (mi, mr)) \<in> set ks"
proof (induction ks arbitrary: mi mr)
  case Nil
  show ?case by simp
next
  case (Cons k ks)
  show ?case
  proof (cases "st k")
    case None
    with Cons.IH [of mi mr] show ?thesis by auto
  next
    case (Some v)
    show ?thesis
    proof (cases "failureRate v < mr")
      case True
      with Some Cons.IH [of k "failureRate v"] show ?thesis by auto
    next
      case False
      with Some Cons.IH [of mi mr] show ?thesis by auto
    qed
  qed
qed

text \<open>
  With at least one record the selection is a single provider: the first, in the order of
  the iteration, whose rate no provider visited later undercuts and every provider visited
  earlier exceeds.
\<close>

lemma selectUrls_recorded:
  assumes ok: "tracker_ok urls st ks" and ne: "st \<noteq> Map.empty"
  shows "\<exists>pre mi post. ks = pre @ mi # post
           \<and> selectUrls urls st ks = Some [mi \<mapsto> urls ! nat mi]
           \<and> (\<forall>j \<in> set pre. rate st mi < rate st j)
           \<and> (\<forall>j \<in> set post. rate st mi \<le> rate st j)"
proof -
  from ne have "dom st \<noteq> {}" by (simp add: dom_eq_empty_conv)
  moreover from ok have dom: "set ks = dom st" by (simp add: tracker_ok_def)
  ultimately have "set ks \<noteq> {}" by simp
  then have nonempty: "ks \<noteq> []" by auto
  from ok have some: "\<forall>k \<in> set ks. st k \<noteq> None" by (auto simp: tracker_ok_def)
  obtain mi mr where scan: "scanStats st ks (- 1, 101) = (mi, mr)" by (cases "scanStats st ks (- 1, 101)")
  from nonempty obtain k0 where k0: "k0 \<in> set ks" by (cases ks) auto
  with ok obtain s0 where "st k0 = Some s0" "failureRate s0 < 101"
    by (auto simp: tracker_ok_def split: option.splits)
  then have "rate st k0 < 101" by simp
  with k0 have "\<not> (\<forall>k \<in> set ks. 101 \<le> rate st k)" by force
  with scanStats_first [OF some, where mi = "- 1" and mr = 101] scan
  obtain pre post where ks: "ks = pre @ mi # post" and mr: "mr = rate st mi"
    and before: "\<forall>j \<in> set pre. mr < rate st j" and after: "\<forall>j \<in> set post. mr \<le> rate st j"
    by auto
  from ks have "mi \<in> set ks" by simp
  with ok have "0 \<le> mi \<and> mi < int (length urls)" by (simp add: tracker_ok_def)
  then have "selectUrls urls st ks = Some [mi \<mapsto> urls ! nat mi]"
    using nonempty scan by (simp add: selectUrls_def)
  with ks mr before after show ?thesis by blast
qed

text \<open>
  C2, as the code has it. With at least one record, \<^verbatim>\<open>Query\<close> selects exactly one
  provider, a recorded one whose failure rate no recorded provider undercuts: the first in
  the order of the iteration over the map to have that rate. It is the provider with the
  strictly lowest rate whenever there is one. With no record, \<^verbatim>\<open>Query\<close> selects all
  configured providers. The rates are the \<^verbatim>\<open>float64\<close> values stored, whatever the
  counters beside them.
\<close>

theorem selectUrls_policy:
  assumes "tracker_ok urls st ks"
  shows "(st \<noteq> Map.empty \<longrightarrow>
           (\<exists>k \<in> dom st. selectUrls urls st ks = Some [k \<mapsto> urls ! nat k]
              \<and> (\<forall>j \<in> dom st. rate st k \<le> rate st j)
              \<and> (\<exists>pre post. ks = pre @ k # post \<and> (\<forall>j \<in> set pre. rate st k < rate st j))
              \<and> (\<forall>j \<in> dom st. (\<forall>i \<in> dom st. i \<noteq> j \<longrightarrow> rate st j < rate st i) \<longrightarrow> k = j)))
       \<and> (st = Map.empty \<longrightarrow>
           selectUrls urls st ks =
             Some (\<lambda>i. if 0 \<le> i \<and> i < int (length urls) then Some (urls ! nat i) else None))"
proof (intro conjI impI)
  assume "st \<noteq> Map.empty"
  from selectUrls_recorded [OF assms this]
  obtain pre mi post where ks: "ks = pre @ mi # post"
    and sel: "selectUrls urls st ks = Some [mi \<mapsto> urls ! nat mi]"
    and before: "\<forall>j \<in> set pre. rate st mi < rate st j"
    and after: "\<forall>j \<in> set post. rate st mi \<le> rate st j"
    by blast
  from assms have dom: "set ks = dom st" by (simp add: tracker_ok_def)
  from ks have mi: "mi \<in> set ks" by simp
  have least: "\<forall>j \<in> dom st. rate st mi \<le> rate st j"
  proof
    fix j
    assume "j \<in> dom st"
    with dom ks have "j \<in> set pre \<or> j = mi \<or> j \<in> set post" by auto
    with before after show "rate st mi \<le> rate st j" by auto
  qed
  from ks before
  have first: "\<exists>pre post. ks = pre @ mi # post \<and> (\<forall>j \<in> set pre. rate st mi < rate st j)"
    by blast
  have uniq: "\<forall>j \<in> dom st. (\<forall>i \<in> dom st. i \<noteq> j \<longrightarrow> rate st j < rate st i) \<longrightarrow> mi = j"
  proof (intro ballI impI)
    fix j
    assume j: "j \<in> dom st" and strict: "\<forall>i \<in> dom st. i \<noteq> j \<longrightarrow> rate st j < rate st i"
    show "mi = j"
    proof (rule ccontr)
      assume "mi \<noteq> j"
      with strict mi dom have "rate st j < rate st mi" by simp
      moreover from least j have "rate st mi \<le> rate st j" by simp
      ultimately show False by simp
    qed
  qed
  from mi dom have "mi \<in> dom st" by simp
  then show "\<exists>k \<in> dom st. selectUrls urls st ks = Some [k \<mapsto> urls ! nat k]
              \<and> (\<forall>j \<in> dom st. rate st k \<le> rate st j)
              \<and> (\<exists>pre post. ks = pre @ k # post \<and> (\<forall>j \<in> set pre. rate st k < rate st j))
              \<and> (\<forall>j \<in> dom st. (\<forall>i \<in> dom st. i \<noteq> j \<longrightarrow> rate st j < rate st i) \<longrightarrow> k = j)"
  proof (rule bexI [rotated])
    from sel least first uniq
    show "selectUrls urls st ks = Some [mi \<mapsto> urls ! nat mi]
              \<and> (\<forall>j \<in> dom st. rate st mi \<le> rate st j)
              \<and> (\<exists>pre post. ks = pre @ mi # post \<and> (\<forall>j \<in> set pre. rate st mi < rate st j))
              \<and> (\<forall>j \<in> dom st. (\<forall>i \<in> dom st. i \<noteq> j \<longrightarrow> rate st j < rate st i) \<longrightarrow> mi = j)"
      by (intro conjI)
  qed
next
  assume "st = Map.empty"
  with assms have "ks = []" by (simp add: tracker_ok_def)
  then show "selectUrls urls st ks =
             Some (\<lambda>i. if 0 \<le> i \<and> i < int (length urls) then Some (urls ! nat i) else None)"
    by (simp add: selectUrls_def rangeUrls_all)
qed

text \<open>
  An instance: after one failed attempt on provider 0 and three attempts on provider 1, one
  of them failed, the rates stored are 100 and \<open>4691249611844266 / 2\<^sup>4\<^sup>7\<close>, and
  provider 1 is selected.
\<close>

theorem selectUrls_policy_witness:
  "selectUrls [''a'', ''b'']
     (recordAttempts (recordAttempts Map.empty 0 [True]) 1 [True, False, False]) [0, 1]
       = Some [1 \<mapsto> ''b'']
   \<and> selectUrls [''a'', ''b''] Map.empty [] = Some [0 \<mapsto> ''a'', 1 \<mapsto> ''b'']"
proof -
  let ?st = "[0 \<mapsto> \<lparr>failureCount = 1, attemptCount = 1, failureRate = 100\<rparr>,
              1 \<mapsto> \<lparr>failureCount = 1, attemptCount = 3,
                     failureRate = 4691249611844266 / 2 ^ 47\<rparr>] :: stats"
  have r0: "float64_mul (float64_div (float64_of_int 1) (float64_of_int 1)) 100 = 100"
    by (simp add: float64_eval)
  have r1: "float64_mul (float64_div (float64_of_int 1) (float64_of_int 3)) 100
      = 4691249611844266 / 2 ^ 47"
    by (simp add: float64_eval)
  have st0: "recordAttempts Map.empty 0 [True]
      = [0 \<mapsto> \<lparr>failureCount = 1, attemptCount = 1, failureRate = 100\<rparr>]"
    by (simp add: recordAttempt_def Let_def r0)
  have st: "recordAttempts (recordAttempts Map.empty 0 [True]) 1 [True, False, False] = ?st"
    by (simp add: recordAttempt_def Let_def r0 r1)
  have ok: "tracker_ok [''a'', ''b''] ?st [0, 1]"
    by (auto simp: tracker_ok_def)
  have ne: "?st \<noteq> Map.empty" by simp
  from selectUrls_policy [OF ok] ne
  obtain k where k: "k \<in> dom ?st"
    and sel: "selectUrls [''a'', ''b''] ?st [0, 1] = Some [k \<mapsto> [''a'', ''b''] ! nat k]"
    and least: "\<forall>j \<in> dom ?st. rate ?st k \<le> rate ?st j"
    by blast
  from least have "rate ?st k \<le> rate ?st 1" by simp
  with k have "k = 1" by (auto split: if_splits)
  with sel have "selectUrls [''a'', ''b''] ?st [0, 1] = Some [1 \<mapsto> ''b'']" by simp
  with st have first: "selectUrls [''a'', ''b'']
     (recordAttempts (recordAttempts Map.empty 0 [True]) 1 [True, False, False]) [0, 1]
       = Some [1 \<mapsto> ''b'']"
    by simp
  have ok0: "tracker_ok [''a'', ''b''] Map.empty []"
    by (simp add: tracker_ok_def)
  from selectUrls_policy [OF ok0]
  have "selectUrls [''a'', ''b''] Map.empty [] =
      Some (\<lambda>i. if 0 \<le> i \<and> i < int (length [''a'', ''b'']) then Some ([''a'', ''b''] ! nat i) else None)"
    by simp
  moreover have "(\<lambda>i. if 0 \<le> i \<and> i < int (length [''a'', ''b'']) then Some ([''a'', ''b''] ! nat i) else None)
      = [0 \<mapsto> ''a'', 1 \<mapsto> ''b'']"
  proof (rule ext)
    fix i :: int
    have "0 \<le> i \<and> i < 2 \<longleftrightarrow> i = 0 \<or> i = 1" by auto
    then show "(if 0 \<le> i \<and> i < int (length [''a'', ''b'']) then Some ([''a'', ''b''] ! nat i) else None)
      = [0 \<mapsto> ''a'', 1 \<mapsto> ''b''] i"
      by auto
  qed
  ultimately have "selectUrls [''a'', ''b''] Map.empty [] = Some [0 \<mapsto> ''a'', 1 \<mapsto> ''b'']"
    by simp
  with first show ?thesis by simp
qed

text \<open>
  C2, as the claim states it, fails where two records share the lowest rate: no provider
  has the strictly lowest one. After one failed attempt on each of two providers both rates
  are 100; the provider selected is the one the iteration over the map visits first, and its
  rate is not below the other's.
\<close>

theorem selectUrls_tie_counterexample:
  "recordAttempt (recordAttempt Map.empty 0 True) 1 True
     = [0 \<mapsto> \<lparr>failureCount = 1, attemptCount = 1, failureRate = 100\<rparr>,
        1 \<mapsto> \<lparr>failureCount = 1, attemptCount = 1, failureRate = 100\<rparr>]
   \<and> tracker_ok [''a'', ''b''] (recordAttempt (recordAttempt Map.empty 0 True) 1 True) [0, 1]
   \<and> selectUrls [''a'', ''b''] (recordAttempt (recordAttempt Map.empty 0 True) 1 True) [0, 1]
        = Some [0 \<mapsto> ''a'']
   \<and> \<not> rate (recordAttempt (recordAttempt Map.empty 0 True) 1 True) 0
          < rate (recordAttempt (recordAttempt Map.empty 0 True) 1 True) 1
   \<and> selectUrls [''a'', ''b''] (recordAttempt (recordAttempt Map.empty 0 True) 1 True) [1, 0]
        = Some [1 \<mapsto> ''b'']"
proof -
  have r0: "float64_mul (float64_div (float64_of_int 1) (float64_of_int 1)) 100 = 100"
    by (simp add: float64_eval)
  have st: "recordAttempt (recordAttempt Map.empty 0 True) 1 True
      = [0 \<mapsto> \<lparr>failureCount = 1, attemptCount = 1, failureRate = 100\<rparr>,
         1 \<mapsto> \<lparr>failureCount = 1, attemptCount = 1, failureRate = 100\<rparr>]"
    by (simp add: recordAttempt_def Let_def r0)
  show ?thesis
    unfolding st by (auto simp: tracker_ok_def selectUrls_def)
qed

text \<open>
  C7, as the code has it. The providers of a client built by \<^verbatim>\<open>New\<close> are never
  empty: an empty configuration is not reported, the four default providers replace it.
  Whatever the statistics hold under indices of these providers, what \<^verbatim>\<open>Query\<close>
  hands to \<^verbatim>\<open>fastQuery\<close> is not empty either: one recorded provider or, failing
  that, all providers. Over such a set the coordinator returns as soon as every attempt has
  sent its value: a response that was sent, or an error that was sent. The error after the
  loop of \<^verbatim>\<open>collectResponses\<close>, the only one that names no provider, is not among
  the results.
\<close>

theorem Query_providers_nonempty:
  assumes "\<forall>k \<in> set ks. 0 \<le> k \<and> k < int (length (New_urls urls))"
  shows "New_urls urls \<noteq> []
     \<and> (\<exists>urlsToQuery. selectUrls (New_urls urls) st ks = Some urlsToQuery
          \<and> urlsToQuery \<noteq> Map.empty \<and> 1 \<le> card (dom urlsToQuery)
          \<and> (\<forall>r. length r = card (dom urlsToQuery) \<longrightarrow>
                (\<exists>resp. RespV resp \<in> set r
                    \<and> collectResponses r (int (card (dom urlsToQuery))) = Some (Success resp))
              \<or> (\<exists>e. ErrV e \<in> set r
                    \<and> collectResponses r (int (card (dom urlsToQuery))) = Some (Failure e))))"
proof
  show ne: "New_urls urls \<noteq> []"
    by (auto simp: New_urls_def defaultUrls_def)
  let ?U = "New_urls urls"
  let ?all = "\<lambda>i. if 0 \<le> i \<and> i < int (length ?U) then Some (?U ! nat i) else None"
  obtain mi mr where scan: "scanStats st ks (- 1, 101) = (mi, mr)"
    by (cases "scanStats st ks (- 1, 101)")
  have "\<exists>m. selectUrls ?U st ks = Some m \<and> m \<noteq> Map.empty \<and> 1 \<le> card (dom m)"
  proof (cases "ks = [] \<or> mi = - 1")
    case True
    with scan have sel: "selectUrls ?U st ks = Some ?all"
      by (auto simp: selectUrls_def rangeUrls_all)
    from ne have "?all 0 = Some (?U ! 0)" by simp
    then have "?all \<noteq> Map.empty" by (metis option.distinct(1))
    moreover have "dom ?all = {0..<int (length ?U)}" by (auto split: if_splits)
    with ne have "1 \<le> card (dom ?all)" by (cases ?U) simp_all
    ultimately show ?thesis using sel by blast
  next
    case False
    with scanStats_index [of st ks "- 1" 101] scan have "mi \<in> set ks" by simp
    with assms have "0 \<le> mi \<and> mi < int (length ?U)" by simp
    with False scan have "selectUrls ?U st ks = Some [mi \<mapsto> ?U ! nat mi]"
      by (simp add: selectUrls_def)
    moreover have "[mi \<mapsto> ?U ! nat mi] \<noteq> Map.empty" by simp
    moreover have "card (dom [mi \<mapsto> ?U ! nat mi]) = 1" by simp
    ultimately show ?thesis by (metis order_refl)
  qed
  then obtain m where sel: "selectUrls ?U st ks = Some m" and m: "m \<noteq> Map.empty"
    and card: "1 \<le> card (dom m)"
    by blast
  have "\<forall>r. length r = card (dom m) \<longrightarrow>
          (\<exists>resp. RespV resp \<in> set r \<and> collectResponses r (int (card (dom m))) = Some (Success resp))
        \<or> (\<exists>e. ErrV e \<in> set r \<and> collectResponses r (int (card (dom m))) = Some (Failure e))"
  proof (intro allI impI)
    fix r :: "chan_value list"
    assume len: "length r = card (dom m)"
    with card have "r \<noteq> []" by auto
    from collectResponses_returns [OF this] len
    show "(\<exists>resp. RespV resp \<in> set r \<and> collectResponses r (int (card (dom m))) = Some (Success resp))
        \<or> (\<exists>e. ErrV e \<in> set r \<and> collectResponses r (int (card (dom m))) = Some (Failure e))"
      by simp
  qed
  with sel m card
  show "\<exists>urlsToQuery. selectUrls ?U st ks = Some urlsToQuery
          \<and> urlsToQuery \<noteq> Map.empty \<and> 1 \<le> card (dom urlsToQuery)
          \<and> (\<forall>r. length r = card (dom urlsToQuery) \<longrightarrow>
                (\<exists>resp. RespV resp \<in> set r
                    \<and> collectResponses r (int (card (dom urlsToQuery))) = Some (Success resp))
              \<or> (\<exists>e. ErrV e \<in> set r
                    \<and> collectResponses r (int (card (dom urlsToQuery))) = Some (Failure e)))"
    by blast
qed

theorem Query_providers_nonempty_witness:
  "New_urls [] = defaultUrls
   \<and> selectUrls (New_urls [])
        [0 \<mapsto> \<lparr>failureCount = 1, attemptCount = 1, failureRate = 100\<rparr>,
         1 \<mapsto> \<lparr>failureCount = 0, attemptCount = 1, failureRate = 0\<rparr>] [0, 1]
       = Some [1 \<mapsto> ''https://1.1.1.1/dns-query'']
   \<and> collectResponses [ErrV (ErrHTTPRequestFailed ''https://1.1.1.1/dns-query'')] 1
       = Some (Failure (ErrHTTPRequestFailed ''https://1.1.1.1/dns-query''))"
proof -
  let ?st = "[0 \<mapsto> \<lparr>failureCount = 1, attemptCount = 1, failureRate = 100\<rparr>,
              1 \<mapsto> \<lparr>failureCount = 0, attemptCount = 1, failureRate = 0::real\<rparr>] :: stats"
  let ?e = "ErrHTTPRequestFailed ''https://1.1.1.1/dns-query''"
  have new: "New_urls [] = defaultUrls" by (simp add: New_urls_def)
  have keys: "\<forall>k \<in> set [0, 1]. 0 \<le> k \<and> k < int (length (New_urls []))"
    by (simp add: New_urls_def defaultUrls_def)
  have sel: "selectUrls (New_urls []) ?st [0, 1] = Some [1 \<mapsto> ''https://1.1.1.1/dns-query'']"
    by (simp add: selectUrls_def New_urls_def defaultUrls_def)
  from Query_providers_nonempty [OF keys, of ?st] sel
  have all: "\<forall>r. length r = card (dom [1 \<mapsto> ''https://1.1.1.1/dns-query''])
         \<longrightarrow> (\<exists>resp. RespV resp \<in> set r
                \<and> collectResponses r (int (card (dom [1 \<mapsto> ''https://1.1.1.1/dns-query'']))) = Some (Success resp))
           \<or> (\<exists>e. ErrV e \<in> set r
                \<and> collectResponses r (int (card (dom [1 \<mapsto> ''https://1.1.1.1/dns-query'']))) = Some (Failure e))"
    by simp
  have "(\<exists>resp. RespV resp \<in> set [ErrV ?e] \<and> collectResponses [ErrV ?e] 1 = Some (Success resp))
           \<or> (\<exists>e. ErrV e \<in> set [ErrV ?e] \<and> collectResponses [ErrV ?e] 1 = Some (Failure e))"
    using all [rule_format, of "[ErrV ?e]"] by simp
  then have "collectResponses [ErrV ?e] 1 = Some (Failure ?e)" by auto
  with new sel show ?thesis by simp
qed

subsection \<open>SHA-1\<close>

text \<open>On 32-bit words the masks change nothing, and \<open>rotl\<close> is the rotation to the left.\<close>

lemma mask32: "(x :: 32 word) AND 0xFFFFFFFF = x"
proof -
  have "(mask 32 :: 32 word) = 0xFFFFFFFF" by (simp add: mask_eq_exp_minus_1)
  moreover have "x AND mask 32 = x"
    using take_bit_length_eq [of x] by (simp add: take_bit_eq_mask)
  ultimately show ?thesis by simp
qed

lemma add32_plus: "add32 x y = x + y"
  by (simp only: add32_def mask32)

lemma rotl_word_rotl:
  assumes "n < 32"
  shows "rotl n x = word_rotl n x"
proof -
  have "push_bit n x OR drop_bit (32 - n) x = word_rotl n x"
  proof (rule bit_word_eqI)
    fix k
    assume k: "k < LENGTH(32)"
    show "bit (push_bit n x OR drop_bit (32 - n) x) k = bit (word_rotl n x) k"
    proof (cases "n \<le> k")
      case True
      with k assms have "(k + (32 - n mod 32)) mod 32 = k - n"
        by (simp add: mod_if) 
      with True k assms show ?thesis
        by (auto simp add: bit_simps bit_word_rotl_iff dest: bit_imp_le_length)
    next
      case False
      with k assms have "(k + (32 - n mod 32)) mod 32 = 32 - n + k"
        by (auto simp add: mod_if)
      with False k assms show ?thesis
        by (auto simp add: bit_simps bit_word_rotl_iff dest: bit_imp_le_length)
    qed
  qed
  then show ?thesis by (simp only: rotl_def mask32)
qed

lemma f_ch_plain: "f_ch b c d = (b AND c) OR (NOT b AND d)"
  by (simp only: f_ch_def mask32)

text \<open>Equations that let the simplifier run the recursions over numerals.\<close>

lemma zeros_unfold: "zeros n = (if n = 0 then [] else 0 # zeros (n - 1))"
  by (cases n) simp_all

lemma schedule_unfold:
  "schedule n hist = (if n = 0 then rev hist
     else schedule (n - 1) (rotl 1 (hist ! 2 XOR hist ! 7 XOR hist ! 13 XOR hist ! 15) # hist))"
  by (cases n) simp_all

lemma sha1_blocks_unfold:
  "sha1_blocks n ws s =
     (if n = 0 then s else sha1_blocks (n - 1) (drop 16 ws) (sha1_block (take 16 ws) s))"
  by (cases n) simp_all

lemmas sha1_eval =
  sha1_hex_def sha1_pad_def sha1_block_def hex32_def rotl_def add32_def
  f_ch_def f_parity_def f_maj_def zeros_unfold schedule_unfold sha1_blocks_unfold

text \<open>
  The digests of the empty message, of \<open>''abc''\<close> and of the two-block message of
  FIPS 180, as \<^verbatim>\<open>sha1.Sum\<close> and \<^verbatim>\<open>hex.EncodeToString\<close> give them.
\<close>

lemma sha1_hex_empty: "sha1_hex [] = ''da39a3ee5e6b4b0d3255bfef95601890afd80709''"
  by (simp add: sha1_eval)

lemma sha1_hex_abc: "sha1_hex ''abc'' = ''a9993e364706816aba3e25717850c26c9cd0d89d''"
  by (simp add: sha1_eval)

lemma sha1_hex_two_blocks:
  "sha1_hex ''abcdbcdecdefdefgefghfghighijhijkijkljklmklmnlmnomnopnopq''
     = ''84983e441c3bd26ebaae4aa1f95129e5e54670f1''"
  by (simp add: sha1_eval)

subsection \<open>The cache key\<close>

lemmas trim_eval =
  TrimSpace_def trimLeft.simps trimRight.simps leadingSpace_def trailingSpace_def whiteSpace_def

lemma TrimSpace_Nil: "TrimSpace [] = []"
  by (simp add: trim_eval)

text \<open>A string of ASCII white space only is trimmed to the empty string.\<close>

lemma trimLeft_ascii:
  assumes "set ws \<subseteq> {CHR 0x09, CHR 0x0A, CHR 0x0B, CHR 0x0C, CHR 0x0D, CHR 0x20}"
  shows "trimLeft ws = []"
  using assms
proof (induction ws)
  case Nil
  show ?case by (simp add: trimLeft.simps leadingSpace_def whiteSpace_def)
next
  case (Cons c ws)
  then have c: "c \<in> {CHR 0x09, CHR 0x0A, CHR 0x0B, CHR 0x0C, CHR 0x0D, CHR 0x20}"
    and rest: "trimLeft ws = []" by simp_all
  from c consider "c = CHR 0x09" | "c = CHR 0x0A" | "c = CHR 0x0B" | "c = CHR 0x0C"
    | "c = CHR 0x0D" | "c = CHR 0x20"
    by blast
  then have "leadingSpace (c # ws) = 1"
    by cases (simp_all add: leadingSpace_def whiteSpace_def)
  then have "trimLeft (c # ws) = trimLeft ws"
    by (subst trimLeft.simps) simp
  with rest show ?case by simp
qed

lemma TrimSpace_ascii:
  assumes "set ws \<subseteq> {CHR 0x09, CHR 0x0A, CHR 0x0B, CHR 0x0C, CHR 0x0D, CHR 0x20}"
  shows "TrimSpace ws = []"
  using trimLeft_ascii [OF assms]
  by (simp add: TrimSpace_def trimRight.simps trailingSpace_def whiteSpace_def)

lemma cacheKeyInput_eq:
  "cacheKeyInput d t s = d @ t @ TrimSpace (case s of [] \<Rightarrow> [] | s0 # _ \<Rightarrow> s0)"
  by (cases s) (simp_all add: cacheKeyInput_def TrimSpace_Nil)

text \<open>
  C4, as the code has it. The key is the SHA-1 digest of the domain and the type as they were
  passed, not trimmed, followed by the trimmed client subnet (the empty string when there
  is none); hence two queries with the same domain and type whose subnets differ only by
  leading or trailing white space have the same key.
\<close>

theorem cacheKey_message:
  "cacheKey d t s = sha1_hex (d @ t @ TrimSpace (case s of [] \<Rightarrow> [] | s0 # _ \<Rightarrow> s0))
   \<and> cacheKey d t [] = sha1_hex (d @ t)
   \<and> cacheKey d t ([] # r0) = sha1_hex (d @ t)
   \<and> (TrimSpace s0 = TrimSpace s1 \<longrightarrow> cacheKey d t (s0 # r0) = cacheKey d t (s1 # r1))"
  by (simp add: cacheKey_def cacheKeyInput_eq TrimSpace_Nil)

theorem cacheKey_message_witness:
  "cacheKey '' a.com'' ''A'' ['' 1.2.3.0/24 '']
     = cacheKey '' a.com'' ''A'' [''1.2.3.0/24'']"
proof -
  have "TrimSpace '' 1.2.3.0/24 '' = TrimSpace ''1.2.3.0/24''"
    by (simp add: trim_eval)
  with cacheKey_message [where d = "'' a.com''" and t = "''A''" and s = "['' 1.2.3.0/24 '']"
      and ?s0.0 = "'' 1.2.3.0/24 ''" and ?s1.0 = "''1.2.3.0/24''" and ?r0.0 = "[]" and ?r1.0 = "[]"]
  show ?thesis by blast
qed

text \<open>
  C4, as the claim states it, fails: for the domain \<open>'' a.com''\<close> and the type \<open>''A ''\<close> the
  message that is hashed keeps the white space, so it is not the concatenation of the
  trimmed values, and the key differs from the key of \<open>''a.com''\<close> and \<open>''A''\<close>.
\<close>

theorem cacheKey_trim_counterexample:
  "cacheKeyInput '' a.com'' ''A '' [] = '' a.comA ''
   \<and> cacheKeyInput '' a.com'' ''A '' [] \<noteq> TrimSpace '' a.com'' @ TrimSpace ''A '' @ TrimSpace []
   \<and> cacheKey '' a.com'' ''A '' [] = ''7490119571d7e228b379999021ffca99f0de0a5e''
   \<and> cacheKey ''a.com'' ''A'' [] = ''6ead669658df7f2e2ad13cafcf068c232a5a977c''
   \<and> cacheKey '' a.com'' ''A '' [] \<noteq> cacheKey ''a.com'' ''A'' []"
proof -
  have m1: "cacheKeyInput '' a.com'' ''A '' [] = '' a.comA ''"
    by (simp add: cacheKeyInput_def)
  have m2: "cacheKeyInput ''a.com'' ''A'' [] = ''a.comA''"
    by (simp add: cacheKeyInput_def)
  have t: "TrimSpace '' a.com'' @ TrimSpace ''A '' @ TrimSpace [] = ''a.comA''"
    by (simp add: trim_eval)
  have h1: "sha1_hex '' a.comA '' = ''7490119571d7e228b379999021ffca99f0de0a5e''"
    by (simp add: sha1_eval)
  have h2: "sha1_hex ''a.comA'' = ''6ead669658df7f2e2ad13cafcf068c232a5a977c''"
    by (simp add: sha1_eval)
  from m1 m2 t h1 h2 show ?thesis
    by (simp add: cacheKey_def)
qed

text \<open>
  C10. A query without a client subnet, with the empty subnet and with a subnet of white
  space only, that is, one that \<^verbatim>\<open>TrimSpace\<close> reduces to the empty string, have the
  same key, so \<^verbatim>\<open>checkCache\<close> reads and \<^verbatim>\<open>updateCache\<close> writes the same
  entry for the three.
\<close>

theorem cacheKey_subnet_forms:
  assumes "TrimSpace ws = []"
  shows "cacheKey d t [] = cacheKey d t [[]]
     \<and> cacheKey d t [] = cacheKey d t [ws]
     \<and> checkCache c d t [ws] now = checkCache c d t [] now
     \<and> checkCache c d t [[]] now = checkCache c d t [] now
     \<and> updateCache c d t resp [ws] now = updateCache c d t resp [] now
     \<and> updateCache c d t resp [[]] now = updateCache c d t resp [] now"
proof -
  have "cacheKeyInput d t [ws] = cacheKeyInput d t []"
    using assms by (simp add: cacheKeyInput_def)
  moreover have "cacheKeyInput d t [[]] = cacheKeyInput d t []"
    by (simp add: cacheKeyInput_def)
  ultimately have "cacheKey d t [ws] = cacheKey d t []"
    and "cacheKey d t [[]] = cacheKey d t []"
    by (simp_all add: cacheKey_def)
  then show ?thesis
    by (simp add: checkCache_def updateCache_def)
qed

theorem cacheKey_subnet_forms_witness:
  "cacheKey ''a.com'' ''A'' [] = cacheKey ''a.com'' ''A'' [[]]
   \<and> cacheKey ''a.com'' ''A'' []
        = cacheKey ''a.com'' ''A'' [[CHR '' '', CHR 0x09, CHR 0xC2, CHR 0xA0, CHR 0x0A]]"
proof -
  have "TrimSpace [CHR '' '', CHR 0x09, CHR 0xC2, CHR 0xA0, CHR 0x0A] = []"
    by (simp add: trim_eval)
  from cacheKey_subnet_forms [OF this, of "''a.com''" "''A''"]
  show ?thesis by blast
qed

subsection \<open>\<^verbatim>\<open>FixSubnet\<close>\<close>

text \<open>
  C9. Let the trimmed input not parse as a prefix. If the text before its first
  \<^verbatim>\<open>/\<close> parses as an address, \<^verbatim>\<open>FixSubnet\<close> returns that address with the
  mask 24 when it is an IPv4 address and 56 otherwise, and no error. An error is returned
  only when that text does not parse as an address.
\<close>

theorem FixSubnet_default_mask:
  "(ParsePrefix N (TrimSpace s) = None \<and> ParseAddr N (fst (Cut (TrimSpace s) (CHR ''/''))) = Some addr
      \<longrightarrow> FixSubnet N s = Inr (PrefixString N (PrefixFrom N addr (if Is4 N addr then 24 else 56))))
   \<and> (FixSubnet N s = Inl e \<longrightarrow>
        e = ErrInvalidIP \<and> ParseAddr N (fst (Cut (TrimSpace s) (CHR ''/''))) = None
        \<and> ParsePrefix N (TrimSpace s) = None)"
  by (auto simp: FixSubnet_def Let_def split: option.splits prod.splits)

theorem FixSubnet_default_mask_witness:
  "FixSubnet netip_v4 '' 1.2.3.4/abc '' = Inr ''1.2.3.4/24''
   \<and> FixSubnet netip_v4 ''1.2.3.4/'' = Inr ''1.2.3.4/24''
   \<and> FixSubnet netip_v4 ''1.2.3.4'' = Inr ''1.2.3.4/24''
   \<and> FixSubnet netip_v4 ''10.20.30.40/16'' = Inr ''10.20.30.40/16''
   \<and> FixSubnet netip_v4 ''1.2.3/24'' = Inl ErrInvalidIP"
proof -
  have t: "TrimSpace '' 1.2.3.4/abc '' = ''1.2.3.4/abc''"
    by (simp add: trim_eval)
  have p: "ParsePrefix netip_v4 ''1.2.3.4/abc'' = None"
    by (simp add: netip_v4_def parseField_def digitVal_def Let_def)
  have a: "ParseAddr netip_v4 (fst (Cut ''1.2.3.4/abc'' (CHR ''/''))) = Some [1, 2, 3, 4]"
    by (simp add: Cut_def netip_v4_def parseField_def digitVal_def)
  have s: "PrefixString netip_v4 (PrefixFrom netip_v4 [1, 2, 3, 4] (if Is4 netip_v4 [1, 2, 3, 4] then 24 else 56))
      = ''1.2.3.4/24''"
    by (simp add: netip_v4_def showField_def Let_def)
  from FixSubnet_default_mask [of netip_v4 "'' 1.2.3.4/abc ''" "[1, 2, 3, 4]"] t p a s
  have first: "FixSubnet netip_v4 '' 1.2.3.4/abc '' = Inr ''1.2.3.4/24''"
    by simp
  have slash: "FixSubnet netip_v4 ''1.2.3.4/'' = Inr ''1.2.3.4/24''"
    by (simp add: FixSubnet_def trim_eval Cut_def netip_v4_def parseField_def digitVal_def
          showField_def Let_def)
  have bare: "FixSubnet netip_v4 ''1.2.3.4'' = Inr ''1.2.3.4/24''"
    by (simp add: FixSubnet_def trim_eval Cut_def netip_v4_def parseField_def digitVal_def
          showField_def Let_def)
  have prefix: "FixSubnet netip_v4 ''10.20.30.40/16'' = Inr ''10.20.30.40/16''"
    by (simp add: FixSubnet_def trim_eval netip_v4_def parseField_def digitVal_def
          showField_def Let_def)
  have bad: "FixSubnet netip_v4 ''1.2.3/24'' = Inl ErrInvalidIP"
    by (simp add: FixSubnet_def trim_eval Cut_def netip_v4_def parseField_def digitVal_def Let_def)
  from first slash bare prefix bad show ?thesis by simp
qed

subsection \<open>Attempts that end in a DNS error\<close>

lemma fastQuery_FailureWith:
  "fastQuery cache urls d t s (pre @ (k, FailureWith rr e) # post) n1 n2
     = fastQuery cache urls d t s (pre @ (k, Failure e) # post) n1 n2"
proof -
  have "map (\<lambda>(k, res). goQuery_send res) (pre @ (k, FailureWith rr e) # post)
      = map (\<lambda>(k, res). goQuery_send res) (pre @ (k, Failure e) # post)"
    by (simp add: goQuery_send_def)
  then show ?thesis by (simp only: fastQuery_def)
qed

text \<open>
  C6. An attempt is one call of \<^verbatim>\<open>c.query\<close> by \<^verbatim>\<open>goQuery\<close>. When the body
  decodes to a response \<open>rr\<close> with a nonzero status, \<^verbatim>\<open>doRequest\<close>, and with it
  \<^verbatim>\<open>query\<close>, returns \<open>rr\<close> together with the error: the caller of the attempt has
  both. \<^verbatim>\<open>goQuery\<close> counts the attempt as failed, one more failure and one more
  attempt in the record of the provider, and sends the error on the channel, so the attempt
  does not win: a race gives the same result as if the attempt had failed without a
  response, and a race of this one attempt ends with its error.
\<close>

theorem dns_status_attempt:
  assumes "unmarshal data (emptyResponse u) = Some rr" and "Status rr \<noteq> 0"
  shows "doRequest unmarshal u (DoResponse http_StatusOK (Some data))
         = FailureWith rr (ErrDNSStatus u (Status rr))
     \<and> query unmarshal (Some u) (DoResponse http_StatusOK (Some data))
         = FailureWith rr (ErrDNSStatus u (Status rr))
     \<and> response_of (query unmarshal (Some u) (DoResponse http_StatusOK (Some data))) = Some rr
     \<and> error_of (query unmarshal (Some u) (DoResponse http_StatusOK (Some data)))
         = Some (ErrDNSStatus u (Status rr))
     \<and> snd (goQuery st k (query unmarshal (Some u) (DoResponse http_StatusOK (Some data))))
         = ErrV (ErrDNSStatus u (Status rr))
     \<and> (\<exists>rec. fst (goQuery st k (query unmarshal (Some u) (DoResponse http_StatusOK (Some data)))) k
                 = Some rec
           \<and> failureCount rec = (case st k of None \<Rightarrow> 0 | Some s0 \<Rightarrow> failureCount s0) + 1
           \<and> attemptCount rec = (case st k of None \<Rightarrow> 0 | Some s0 \<Rightarrow> attemptCount s0) + 1)
     \<and> fastQuery cache urls d t s
          (pre @ (k, query unmarshal (Some u) (DoResponse http_StatusOK (Some data))) # post) n1 n2
         = fastQuery cache urls d t s (pre @ (k, Failure (ErrDNSStatus u (Status rr))) # post) n1 n2
     \<and> fastQuery None [k \<mapsto> u] d t s
          [(k, query unmarshal (Some u) (DoResponse http_StatusOK (Some data)))] n1 n2
         = Some (Failure (ErrDNSStatus u (Status rr)), None)"
proof -
  have q: "query unmarshal (Some u) (DoResponse http_StatusOK (Some data))
      = FailureWith rr (ErrDNSStatus u (Status rr))"
    using assms by (simp add: query_def doRequest_def)
  have d: "doRequest unmarshal u (DoResponse http_StatusOK (Some data))
      = FailureWith rr (ErrDNSStatus u (Status rr))"
    using assms by (simp add: doRequest_def)
  have sent: "snd (goQuery st k (FailureWith rr (ErrDNSStatus u (Status rr))))
      = ErrV (ErrDNSStatus u (Status rr))"
    by (simp add: goQuery_def goQuery_send_def)
  have counted: "\<exists>rec. fst (goQuery st k (FailureWith rr (ErrDNSStatus u (Status rr)))) k = Some rec
           \<and> failureCount rec = (case st k of None \<Rightarrow> 0 | Some s0 \<Rightarrow> failureCount s0) + 1
           \<and> attemptCount rec = (case st k of None \<Rightarrow> 0 | Some s0 \<Rightarrow> attemptCount s0) + 1"
    by (simp add: goQuery_def recordAttempt_key Let_def)
  have race: "fastQuery cache urls d t s
          (pre @ (k, FailureWith rr (ErrDNSStatus u (Status rr))) # post) n1 n2
         = fastQuery cache urls d t s (pre @ (k, Failure (ErrDNSStatus u (Status rr))) # post) n1 n2"
    by (rule fastQuery_FailureWith)
  have alone: "fastQuery None [k \<mapsto> u] d t s
          [(k, FailureWith rr (ErrDNSStatus u (Status rr)))] n1 n2
         = Some (Failure (ErrDNSStatus u (Status rr)), None)"
    by (simp add: fastQuery_def goQuery_send_def collectResponses_def afterLoop_def)
  from d sent counted race alone show ?thesis
    unfolding q by simp
qed

theorem dns_status_attempt_witness:
  "query (\<lambda>data rr. Some (rr\<lparr>Status := 3\<rparr>)) (Some ''u'') (DoResponse 200 (Some ''{}''))
     = FailureWith ((emptyResponse ''u'')\<lparr>Status := 3\<rparr>) (ErrDNSStatus ''u'' 3)
   \<and> response_of
        (query (\<lambda>data rr. Some (rr\<lparr>Status := 3\<rparr>)) (Some ''u'') (DoResponse 200 (Some ''{}'')))
      = Some ((emptyResponse ''u'')\<lparr>Status := 3\<rparr>)
   \<and> snd (goQuery Map.empty 0
        (query (\<lambda>data rr. Some (rr\<lparr>Status := 3\<rparr>)) (Some ''u'') (DoResponse 200 (Some ''{}''))))
      = ErrV (ErrDNSStatus ''u'' 3)
   \<and> fastQuery None [0 \<mapsto> ''u''] ''example.com'' ''A'' []
        [(0, query (\<lambda>data rr. Some (rr\<lparr>Status := 3\<rparr>)) (Some ''u'') (DoResponse 200 (Some ''{}'')))] 0 0
      = Some (Failure (ErrDNSStatus ''u'' 3), None)"
proof -
  have u: "(\<lambda>data rr. Some (rr\<lparr>Status := 3\<rparr>)) ''{}'' (emptyResponse ''u'')
      = Some ((emptyResponse ''u'')\<lparr>Status := 3\<rparr>)"
    by simp
  have s: "Status ((emptyResponse ''u'')\<lparr>Status := 3\<rparr>) \<noteq> 0"
    by simp
  from dns_status_attempt [where unmarshal = "\<lambda>data rr. Some (rr\<lparr>Status := 3\<rparr>)"
      and data = "''{}''" and u = "''u''" and rr = "(emptyResponse ''u'')\<lparr>Status := 3\<rparr>"
      and st = Map.empty and k = 0 and d = "''example.com''" and t = "''A''" and s = "[]"
      and ?n1.0 = 0 and ?n2.0 = 0 and cache = None and urls = Map.empty
      and pre = "[]" and post = "[]", OF u s]
  show ?thesis
    by (elim conjE) (simp add: http_StatusOK_def)
qed

subsection \<open>Storing a response\<close>

text \<open>
  C8. With caching enabled and no entry to serve the query from, a query that succeeds
  returns the response of an attempt that succeeded, and afterwards the cache holds, under
  the cache key, this response with the expiration instant \<open>now\<^sub>2 + ttl * 10\<^sup>9\<close>, where
  \<open>ttl\<close> is the TTL of the first answer of the response, or 30 when it has no answer; the
  other entries of the cache are as before. (A query served from the cache returns before
  the race and stores nothing.)
\<close>

theorem fastQuery_updates_cache:
  assumes run: "fastQuery (Some c) urls d t s attempts now\<^sub>1 now\<^sub>2 = Some (res, cache')"
    and miss: "cache_Get c (cacheKey d t s) now\<^sub>1 = None"
    and ok: "error_of res = None"
  shows "\<exists>resp c'. res = Success resp
     \<and> (\<exists>k. (k, Success resp) \<in> set attempts)
     \<and> cache' = Some c'
     \<and> c' (cacheKey d t s)
         = Some \<lparr>item_value = resp,
                 expiration = now\<^sub>2
                   + word_of_int (case Answer resp of [] \<Rightarrow> 30 | a # _ \<Rightarrow> TTL a) * 1000000000\<rparr>
     \<and> (\<forall>key. key \<noteq> cacheKey d t s \<longrightarrow> c' key = c key)"
proof -
  from ok obtain resp where res: "res = Success resp" by (cases res) auto
  have ttl: "(if length (Answer resp) > 0 then TTL (Answer resp ! 0) else 30)
      = (case Answer resp of [] \<Rightarrow> 30 | a # _ \<Rightarrow> TTL a)"
    by (cases "Answer resp") auto
  define r where "r = map (\<lambda>(k, res). goQuery_send res) attempts"
  from run miss res have won: "collectResponses r (int (card (dom urls))) = Some (Success resp)"
    by (auto simp: fastQuery_def checkCache_def Let_def r_def split: option.splits result.splits)
  from run miss res have stored: "cache' = Some (updateCache c d t resp s now\<^sub>2)"
    by (auto simp: fastQuery_def checkCache_def Let_def split: option.splits result.splits)
  from won have "RespV resp \<in> set r"
    unfolding collectResponses_def by (rule collectLoop_Success_mem)
  then obtain k res' where mem: "(k, res') \<in> set attempts" and sent: "goQuery_send res' = RespV resp"
    by (auto simp: r_def)
  from sent have "res' = Success resp"
    by (cases res') (simp_all add: goQuery_send_def)
  with mem have winner: "\<exists>k. (k, Success resp) \<in> set attempts" by blast
  let ?c' = "updateCache c d t resp s now\<^sub>2"
  have entry: "?c' (cacheKey d t s)
         = Some \<lparr>item_value = resp,
                 expiration = now\<^sub>2
                   + word_of_int (case Answer resp of [] \<Rightarrow> 30 | a # _ \<Rightarrow> TTL a) * 1000000000\<rparr>"
    using ttl by (simp add: updateCache_def cache_Set_key)
  have others: "\<forall>key. key \<noteq> cacheKey d t s \<longrightarrow> ?c' key = c key"
    by (simp add: updateCache_def cache_Set_other)
  from res winner stored entry others show ?thesis by blast
qed

theorem fastQuery_updates_cache_witness:
  "(let r0 = (emptyResponse ''u0'')\<lparr>Answer := [\<lparr>AName = ''a.com'', AType = 1, TTL = 60, Data = ''1.2.3.4''\<rparr>]\<rparr>
    in \<exists>c'. fastQuery (Some newCache) [0 \<mapsto> ''u0'', 1 \<mapsto> ''u1''] ''a.com'' ''A'' []
               [(1, Failure (ErrHTTPRequestFailed ''u1'')), (0, Success r0)] 5 9
             = Some (Success r0, Some c')
          \<and> c' (cacheKey ''a.com'' ''A'' []) = Some \<lparr>item_value = r0, expiration = 60000000009\<rparr>)
   \<and> (\<exists>c'. fastQuery (Some newCache) [0 \<mapsto> ''u0''] ''a.com'' ''A'' []
               [(0, Success (emptyResponse ''u0''))] 5 9
             = Some (Success (emptyResponse ''u0''), Some c')
          \<and> c' (cacheKey ''a.com'' ''A'' [])
               = Some \<lparr>item_value = emptyResponse ''u0'', expiration = 30000000009\<rparr>)"
proof -
  define r0 where "r0 = (emptyResponse ''u0'')\<lparr>Answer := [\<lparr>AName = ''a.com'', AType = 1, TTL = 60, Data = ''1.2.3.4''\<rparr>]\<rparr>"
  define r1 where "r1 = emptyResponse ''u0''"
  have miss: "cache_Get newCache (cacheKey ''a.com'' ''A'' []) 5 = None"
    by (simp add: cache_Get_def newCache_def)
  have "\<exists>res cache'. fastQuery (Some newCache) [0 \<mapsto> ''u0'', 1 \<mapsto> ''u1''] ''a.com'' ''A'' []
         [(1, Failure (ErrHTTPRequestFailed ''u1'')), (0, Success r0)] 5 9 = Some (res, cache')
        \<and> error_of res = None \<and> res = Success r0"
    by (simp add: fastQuery_def checkCache_def miss goQuery_send_def collectResponses_def Let_def)
  then obtain cache' where run: "fastQuery (Some newCache) [0 \<mapsto> ''u0'', 1 \<mapsto> ''u1''] ''a.com'' ''A'' []
         [(1, Failure (ErrHTTPRequestFailed ''u1'')), (0, Success r0)] 5 9 = Some (Success r0, cache')"
    by auto
  from fastQuery_updates_cache [OF run miss]
  obtain c' where "cache' = Some c'"
    and "c' (cacheKey ''a.com'' ''A'' [])
         = Some \<lparr>item_value = r0,
                 expiration = 9 + word_of_int (case Answer r0 of [] \<Rightarrow> 30 | a # _ \<Rightarrow> TTL a) * 1000000000\<rparr>"
    by auto
  moreover have "(9 :: 64 word) + word_of_int (case Answer r0 of [] \<Rightarrow> 30 | a # _ \<Rightarrow> TTL a) * 1000000000
      = 60000000009"
    by (simp add: r0_def)
  ultimately have first: "\<exists>c'. fastQuery (Some newCache) [0 \<mapsto> ''u0'', 1 \<mapsto> ''u1''] ''a.com'' ''A'' []
               [(1, Failure (ErrHTTPRequestFailed ''u1'')), (0, Success r0)] 5 9
             = Some (Success r0, Some c')
          \<and> c' (cacheKey ''a.com'' ''A'' []) = Some \<lparr>item_value = r0, expiration = 60000000009\<rparr>"
    using run by simp
  have "\<exists>res cache'. fastQuery (Some newCache) [0 \<mapsto> ''u0''] ''a.com'' ''A'' []
         [(0, Success r1)] 5 9 = Some (res, cache')
        \<and> error_of res = None \<and> res = Success r1"
    by (simp add: fastQuery_def checkCache_def miss goQuery_send_def collectResponses_def Let_def)
  then obtain cache'' where run': "fastQuery (Some newCache) [0 \<mapsto> ''u0''] ''a.com'' ''A'' []
         [(0, Success r1)] 5 9 = Some (Success r1, cache'')"
    by auto
  from fastQuery_updates_cache [OF run' miss]
  obtain c'' where "cache'' = Some c''"
    and "c'' (cacheKey ''a.com'' ''A'' [])
         = Some \<lparr>item_value = r1,
                 expiration = 9 + word_of_int (case Answer r1 of [] \<Rightarrow> 30 | a # _ \<Rightarrow> TTL a) * 1000000000\<rparr>"
    by auto
  moreover have "(9 :: 64 word) + word_of_int (case Answer r1 of [] \<Rightarrow> 30 | a # _ \<Rightarrow> TTL a) * 1000000000
      = 30000000009"
    by (simp add: r1_def emptyResponse_def)
  ultimately have second: "\<exists>c'. fastQuery (Some newCache) [0 \<mapsto> ''u0''] ''a.com'' ''A'' []
               [(0, Success r1)] 5 9
             = Some (Success r1, Some c')
          \<and> c' (cacheKey ''a.com'' ''A'' []) = Some \<lparr>item_value = r1, expiration = 30000000009\<rparr>"
    using run' by simp
  from first second show ?thesis by (simp add: r0_def r1_def Let_def)
qed

end
